theory Spec2Isabelle
  imports Complex_Main
begin

section \<open>The deterministic level builder\<close>

text \<open>
  A shallow embedding of \<^verbatim>\<open>buildLevel\<close> (the level builder, \<^verbatim>\<open>server/levelBuilder.ts\<close>
  in the project's own structure table).

  Conventions of the model.
  \<^item> A JavaScript \<^verbatim>\<open>number\<close> is a rational (\<^typ>\<open>rat\<close>). The builder is given twice: first
    in exact arithmetic, where the decimal constants of the source are the rationals they
    denote; then with the rounding of IEEE doubles applied to every constant and every
    arithmetic result (\<open>buildLevelR fl\<close>). NaN and the infinities are outside the model.
  \<^item> A \<^verbatim>\<open>Bounds\<close> object is never mutated, so it is modelled by its value together with
    its identity: a \<^verbatim>\<open>Bounds\<close> object that \<^verbatim>\<open>buildLevel\<close> allocates is \<open>FreshRef n\<close>, with
    \<open>n\<close> drawn from an allocation counter, and the \<^verbatim>\<open>bounds_normalized\<close> object of an input
    detection is \<open>InputRef k\<close>, with \<open>k\<close> supplied by the caller (two detections may share one).
    The comparison \<^verbatim>\<open>===\<close> on two \<^verbatim>\<open>Bounds\<close> objects is equality of these identities.
  \<^item> Reading a property of \<^verbatim>\<open>undefined\<close> throws; \<^verbatim>\<open>buildLevel\<close> returns \<open>Inl TypeError\<close> there.
  \<^item> Record fields carry a prefix where the source's field name is used by several
    interfaces (\<open>det_\<close>, \<open>pc_\<close>, \<open>so_\<close>, \<open>sp_\<close>, \<open>b_\<close>).
\<close>

subsection \<open>Types\<close>

datatype category = Furniture | Food | Plant | Electric | Other

datatype object_type = Platform | Obstacle | Collectible | Hazard

datatype surface = Solid | Soft

datatype ref = InputRef nat | FreshRef nat

datatype error = TypeError

record Bounds =
  b_x :: rat
  b_y :: rat
  b_w :: rat
  b_h :: rat

record Detection =
  det_label :: string
  det_category :: category
  det_confidence :: rat
  bounds_normalized :: Bounds
  bounds_id :: nat

record ImageSize =
  img_w :: rat
  img_h :: rat

record DetectionResponse =
  in_image :: ImageSize
  detections :: "Detection list"

record SceneObject =
  so_id :: string
  so_type :: object_type
  so_label :: string
  so_confidence :: rat
  so_bounds :: Bounds
  so_bounds_ref :: ref
  surface_type :: "surface option"
  so_category :: "category option"
  enemy_spawn_anchor :: "bool option"

record SpawnPoint =
  sp_x :: rat
  sp_y :: rat

record EnemySpawn = SpawnPoint +
  enemy_type :: string

record PickupSpawn = SpawnPoint +
  pickup_type :: string

record Spawns =
  player :: SpawnPoint
  exit :: SpawnPoint
  enemies :: "EnemySpawn list"
  pickups :: "PickupSpawn list"

record SceneV1 =
  version :: nat
  scene_image :: ImageSize
  objects :: "SceneObject list"
  spawns :: Spawns
  rules :: "unit list"

record PlatformCandidate =
  pc_label :: string
  pc_category :: category
  pc_confidence :: rat
  pc_bounds :: Bounds
  pc_bounds_ref :: nat
  isBridge :: bool
  isGround :: bool
  enemyAnchor :: bool

subsection \<open>Constants\<close>

definition MAX_JUMP_HEIGHT :: rat where
  "MAX_JUMP_HEIGHT = 0.25"

definition MAX_HORIZONTAL_REACH :: rat where
  "MAX_HORIZONTAL_REACH = 0.40"

definition MIN_PLATFORM_WIDTH :: rat where
  "MIN_PLATFORM_WIDTH = 0.08"

definition PLATFORM_THICKNESS :: rat where
  "PLATFORM_THICKNESS = 0.03"

definition MAX_PLATFORMS :: nat where
  "MAX_PLATFORMS = 10"

definition ENTITY_OFFSET_Y :: rat where
  "ENTITY_OFFSET_Y = 0.06"

subsection \<open>Helpers\<close>

definition clamp :: "rat \<Rightarrow> rat \<Rightarrow> rat \<Rightarrow> rat" where
  "clamp v lo hi = max lo (min hi v)"

definition horizontalOverlap :: "Bounds \<Rightarrow> Bounds \<Rightarrow> bool" where
  "horizontalOverlap a b \<longleftrightarrow> b_x a < b_x b + b_w b \<and> b_x a + b_w a > b_x b"

definition horizontalGap :: "Bounds \<Rightarrow> Bounds \<Rightarrow> rat" where
  "horizontalGap a b =
     (let aRight = b_x a + b_w a;
          bRight = b_x b + b_w b
      in if b_x a < bRight \<and> aRight > b_x b then 0
         else min \<bar>b_x a - bRight\<bar> \<bar>b_x b - aRight\<bar>)"

text \<open>The decimal rendering of the id counter in the template literal of \<^verbatim>\<open>nextId\<close>.\<close>

fun string_of_nat :: "nat \<Rightarrow> string" where
  "string_of_nat n =
     (if n < 10 then [''0123456789'' ! n]
      else string_of_nat (n div 10) @ [''0123456789'' ! (n mod 10)])"

declare string_of_nat.simps [simp del]

definition nextId :: "string \<Rightarrow> nat \<Rightarrow> string" where
  "nextId prefix idCounter = prefix @ ''_'' @ string_of_nat idCounter"

text \<open>
  \<^verbatim>\<open>Array.prototype.sort\<close> is stable; with the comparator \<^verbatim>\<open>(a, b) => b.bounds.y - a.bounds.y\<close>
  it sorts by descending \<open>y\<close>, with \<^verbatim>\<open>(a, b) => a.bounds.y - b.bounds.y\<close> by ascending \<open>y\<close>.
  \<^const>\<open>sort_key\<close> is a stable insertion sort.
\<close>

definition sortDescY :: "PlatformCandidate list \<Rightarrow> PlatformCandidate list" where
  "sortDescY ps = sort_key (\<lambda>p. - b_y (pc_bounds p)) ps"

definition sortAscY :: "PlatformCandidate list \<Rightarrow> PlatformCandidate list" where
  "sortAscY ps = sort_key (\<lambda>p. b_y (pc_bounds p)) ps"

text \<open>\<^verbatim>\<open>platforms.splice(k, 0, b)\<close> for \<open>k \<le> length ps\<close>.\<close>

definition spliceAt :: "nat \<Rightarrow> 'a \<Rightarrow> 'a list \<Rightarrow> 'a list" where
  "spliceAt k b ps = take k ps @ b # drop k ps"

subsection \<open>Step A: detections to candidate platforms and other objects\<close>

record extract_state =
  candidates :: "PlatformCandidate list"
  collectibleDetections :: "Detection list"
  obstacleDetections :: "Detection list"
  nextRef :: nat

definition platBounds :: "Detection \<Rightarrow> Bounds" where
  "platBounds det =
     \<lparr> b_x = clamp (b_x (bounds_normalized det)) 0 0.95,
       b_y = clamp (b_y (bounds_normalized det)) 0.05 0.90,
       b_w = clamp (b_w (bounds_normalized det)) 0.05 0.9,
       b_h = PLATFORM_THICKNESS \<rparr>"

fun stepA_loop :: "Detection list \<Rightarrow> extract_state \<Rightarrow> extract_state" where
  "stepA_loop [] s = s"
| "stepA_loop (det # dets) s =
     (if det_category det = Food
      then stepA_loop dets (s\<lparr>collectibleDetections := collectibleDetections s @ [det]\<rparr>)
      else if b_w (platBounds det) < MIN_PLATFORM_WIDTH
      then stepA_loop dets (s\<lparr>obstacleDetections := obstacleDetections s @ [det],
                             nextRef := nextRef s + 1\<rparr>)
      else stepA_loop dets
             (s\<lparr>candidates := candidates s @
                   [\<lparr> pc_label = det_label det,
                      pc_category = det_category det,
                      pc_confidence = det_confidence det,
                      pc_bounds = platBounds det,
                      pc_bounds_ref = nextRef s,
                      isBridge = False,
                      isGround = False,
                      enemyAnchor = (det_category det = Plant \<or> det_category det = Electric) \<rparr>],
                nextRef := nextRef s + 1\<rparr>))"

definition stepA :: "Detection list \<Rightarrow> extract_state" where
  "stepA dets =
     stepA_loop dets \<lparr> candidates = [], collectibleDetections = [], obstacleDetections = [],
                    nextRef = 0 \<rparr>"

subsection \<open>Step B: the ground platform\<close>

definition ground :: "nat \<Rightarrow> PlatformCandidate" where
  "ground r =
     \<lparr> pc_label = ''ground'',
       pc_category = Furniture,
       pc_confidence = 1.0,
       pc_bounds = \<lparr> b_x = 0.0, b_y = 0.92, b_w = 1.0, b_h = PLATFORM_THICKNESS \<rparr>,
       pc_bounds_ref = r,
       isBridge = False,
       isGround = True,
       enemyAnchor = False \<rparr>"

subsection \<open>Steps C and D: sort, de-duplicate, limit\<close>

fun dedup :: "PlatformCandidate list \<Rightarrow> PlatformCandidate list \<Rightarrow> PlatformCandidate list" where
  "dedup [] filtered = filtered"
| "dedup (cand # cands) filtered =
     (let tooClose = list_ex
            (\<lambda>existing. \<bar>b_y (pc_bounds existing) - b_y (pc_bounds cand)\<bar> < 0.05 \<and>
                         horizontalOverlap (pc_bounds existing) (pc_bounds cand))
            filtered
      in if tooClose then dedup cands filtered else dedup cands (filtered @ [cand]))"

definition stepD :: "extract_state \<Rightarrow> PlatformCandidate list" where
  "stepD s =
     take MAX_PLATFORMS (dedup (sortDescY (candidates s @ [ground (nextRef s)])) [])"

subsection \<open>Step E: reachability repair\<close>

definition bridge :: "PlatformCandidate \<Rightarrow> PlatformCandidate \<Rightarrow> nat \<Rightarrow> PlatformCandidate" where
  "bridge lower upper r =
     (let midY = (b_y (pc_bounds lower) + b_y (pc_bounds upper)) / 2;
          lowerCenterX = b_x (pc_bounds lower) + b_w (pc_bounds lower) / 2;
          upperCenterX = b_x (pc_bounds upper) + b_w (pc_bounds upper) / 2;
          bridgeX = clamp ((lowerCenterX + upperCenterX) / 2 - 0.075) 0.02 0.85
      in \<lparr> pc_label = ''bridge'',
           pc_category = Other,
           pc_confidence = 1.0,
           pc_bounds = \<lparr> b_x = bridgeX, b_y = midY, b_w = 0.15, b_h = PLATFORM_THICKNESS \<rparr>,
           pc_bounds_ref = r,
           isBridge = True,
           isGround = False,
           enemyAnchor = False \<rparr>)"

definition steppingStone :: "PlatformCandidate \<Rightarrow> PlatformCandidate \<Rightarrow> nat \<Rightarrow> PlatformCandidate" where
  "steppingStone lower upper r =
     (let midY = (b_y (pc_bounds lower) + b_y (pc_bounds upper)) / 2;
          midX = clamp
            ((b_x (pc_bounds lower) + b_w (pc_bounds lower) / 2 +
              b_x (pc_bounds upper) + b_w (pc_bounds upper) / 2) / 2 - 0.075)
            0.02 0.85
      in \<lparr> pc_label = ''stepping stone'',
           pc_category = Other,
           pc_confidence = 1.0,
           pc_bounds = \<lparr> b_x = midX, b_y = midY, b_w = 0.15, b_h = PLATFORM_THICKNESS \<rparr>,
           pc_bounds_ref = r,
           isBridge = True,
           isGround = False,
           enemyAnchor = False \<rparr>)"

text \<open>
  The inner \<^verbatim>\<open>for\<close> loop from index \<open>i\<close> on: \<open>Some\<close> of the list after the \<^verbatim>\<open>splice\<close> when
  the loop leaves by \<^verbatim>\<open>break\<close>, \<open>None\<close> when it runs to its end. The test
  \<^verbatim>\<open>i < platforms.length - 1\<close> is written \<open>i + 1 < length platforms\<close> on naturals.
  The argument \<open>r\<close> is the identity that a \<^verbatim>\<open>Bounds\<close> object allocated now receives.
\<close>

function scan :: "nat \<Rightarrow> PlatformCandidate list \<Rightarrow> nat \<Rightarrow> PlatformCandidate list option" where
  "scan i plats r =
     (if i + 1 < length plats then
        (let lower = plats ! i;
             upper = plats ! (i + 1);
             vertGap = b_y (pc_bounds lower) - b_y (pc_bounds upper)
         in if vertGap > MAX_JUMP_HEIGHT
            then Some (spliceAt (i + 1) (bridge lower upper r) plats)
            else (let hGap = horizontalGap (pc_bounds lower) (pc_bounds upper)
                  in if hGap > MAX_HORIZONTAL_REACH
                     then Some (spliceAt (i + 1) (steppingStone lower upper r) plats)
                     else scan (i + 1) plats r))
      else None)"
  by pat_completeness auto
termination
  by (relation "measure (\<lambda>(i, plats, r). length plats - i)") auto

declare scan.simps [simp del]

record repair_state =
  platforms :: "PlatformCandidate list"
  bridgesInserted :: bool
  iterations :: nat
  freshRef :: nat

text \<open>One pass of the \<^verbatim>\<open>while\<close> body: the scan, then the re-sort.\<close>

definition repair_body :: "repair_state \<Rightarrow> repair_state" where
  "repair_body s =
     (case scan 0 (platforms s) (freshRef s) of
        None \<Rightarrow>
          \<lparr> platforms = sortDescY (platforms s), bridgesInserted = False,
            iterations = iterations s + 1, freshRef = freshRef s \<rparr>
      | Some plats \<Rightarrow>
          \<lparr> platforms = sortDescY plats, bridgesInserted = True,
            iterations = iterations s + 1, freshRef = freshRef s + 1 \<rparr>)"

function repair_loop :: "repair_state \<Rightarrow> repair_state" where
  "repair_loop s =
     (if bridgesInserted s \<and> iterations s < 10 then repair_loop (repair_body s) else s)"
  by pat_completeness auto
termination
  by (relation "measure (\<lambda>s. 10 - iterations s)") (auto simp: repair_body_def split: option.split)

declare repair_loop.simps [simp del]

definition stepE :: "PlatformCandidate list \<Rightarrow> nat \<Rightarrow> repair_state" where
  "stepE plats r =
     repair_loop \<lparr> platforms = sortDescY plats, bridgesInserted = True, iterations = 0,
                   freshRef = r \<rparr>"

text \<open>\<^verbatim>\<open>while (platforms.length > 12) platforms.pop()\<close>\<close>

function capPlatforms :: "PlatformCandidate list \<Rightarrow> PlatformCandidate list" where
  "capPlatforms plats = (if length plats > 12 then capPlatforms (butlast plats) else plats)"
  by pat_completeness auto
termination
  by (relation "measure length") auto

declare capPlatforms.simps [simp del]

text \<open>The state of the repair loop when it ends, and the platform list after the cap.\<close>

definition repaired :: "Detection list \<Rightarrow> repair_state" where
  "repaired dets = (let a = stepA dets in stepE (stepD a) (nextRef a + 1))"

definition finalPlatforms :: "Detection list \<Rightarrow> PlatformCandidate list" where
  "finalPlatforms dets = capPlatforms (platforms (repaired dets))"

subsection \<open>Steps F, G, H: the scene objects\<close>

definition platformObject :: "nat \<Rightarrow> PlatformCandidate \<Rightarrow> SceneObject" where
  "platformObject idCounter plat =
     \<lparr> so_id = nextId (if isGround plat then ''ground''
                        else if isBridge plat then ''bridge'' else ''plat'') idCounter,
       so_type = Platform,
       so_label = pc_label plat,
       so_confidence = pc_confidence plat,
       so_bounds = pc_bounds plat,
       so_bounds_ref = FreshRef (pc_bounds_ref plat),
       surface_type = Some (if pc_category plat = Furniture then Solid else Solid),
       so_category = Some (if pc_category plat = Other then Other else pc_category plat),
       enemy_spawn_anchor = Some (enemyAnchor plat) \<rparr>"

definition obstacleObject :: "nat \<Rightarrow> Detection \<Rightarrow> SceneObject" where
  "obstacleObject idCounter det =
     \<lparr> so_id = nextId ''obs'' idCounter,
       so_type = Obstacle,
       so_label = det_label det,
       so_confidence = det_confidence det,
       so_bounds = bounds_normalized det,
       so_bounds_ref = InputRef (bounds_id det),
       surface_type = None,
       so_category = Some (det_category det),
       enemy_spawn_anchor = Some (det_category det = Plant \<or> det_category det = Electric) \<rparr>"

definition collectibleObject :: "nat \<Rightarrow> Detection \<Rightarrow> SceneObject" where
  "collectibleObject idCounter det =
     \<lparr> so_id = nextId ''col'' idCounter,
       so_type = Collectible,
       so_label = det_label det,
       so_confidence = det_confidence det,
       so_bounds = bounds_normalized det,
       so_bounds_ref = InputRef (bounds_id det),
       surface_type = None,
       so_category = Some Food,
       enemy_spawn_anchor = None \<rparr>"

text \<open>
  Each loop pushes one object per element and takes the next value of \<^verbatim>\<open>idCounter\<close>:
  \<open>enumerate n xs\<close> pairs the elements with \<open>n, n + 1, \<dots>\<close>
\<close>

definition stepF :: "PlatformCandidate list \<Rightarrow> SceneObject list" where
  "stepF plats = map (\<lambda>(i, plat). platformObject i plat) (enumerate 0 plats)"

definition stepG :: "nat \<Rightarrow> Detection list \<Rightarrow> SceneObject list" where
  "stepG idCounter dets =
     map (\<lambda>(i, det). obstacleObject i det) (enumerate idCounter (take 4 dets))"

definition stepH :: "nat \<Rightarrow> Detection list \<Rightarrow> SceneObject list" where
  "stepH idCounter dets =
     map (\<lambda>(i, det). collectibleObject i det) (enumerate idCounter (take 5 dets))"

definition builtObjects :: "PlatformCandidate list \<Rightarrow> extract_state \<Rightarrow> SceneObject list" where
  "builtObjects plats a =
     (let objsF = stepF plats;
          objsG = objsF @ stepG (length objsF) (obstacleDetections a)
      in objsG @ stepH (length objsG) (collectibleDetections a))"

subsection \<open>Steps I and J: player spawn and exit\<close>

text \<open>\<^verbatim>\<open>platforms.find((p) => p.isGround) || platforms[0]\<close>; \<open>None\<close> is \<^verbatim>\<open>undefined\<close>.\<close>

definition groundPlat :: "PlatformCandidate list \<Rightarrow> PlatformCandidate option" where
  "groundPlat plats =
     (case find isGround plats of
        Some p \<Rightarrow> Some p
      | None \<Rightarrow> (case plats of [] \<Rightarrow> None | p # _ \<Rightarrow> Some p))"

text \<open>\<^verbatim>\<open>sortedByHeight[0]\<close>\<close>

definition highestPlat :: "PlatformCandidate list \<Rightarrow> PlatformCandidate option" where
  "highestPlat plats = (case sortAscY plats of [] \<Rightarrow> None | p # _ \<Rightarrow> Some p)"

definition exitSpawn :: "PlatformCandidate \<Rightarrow> SpawnPoint" where
  "exitSpawn hp =
     \<lparr> sp_x = clamp (b_x (pc_bounds hp) + b_w (pc_bounds hp) - 0.05) 0.7 0.95,
       sp_y = b_y (pc_bounds hp) - ENTITY_OFFSET_Y \<rparr>"

subsection \<open>Step K: pickups\<close>

text \<open>
  \<^verbatim>\<open>for (let i = 0; i < pickupPlatforms.length && pickups.length < 5; i++)\<close>,
  from index \<open>i\<close> on, over the rest of \<^verbatim>\<open>pickupPlatforms\<close>.
\<close>

fun placePickups :: "nat \<Rightarrow> PlatformCandidate list \<Rightarrow> PickupSpawn list \<Rightarrow> PickupSpawn list" where
  "placePickups i [] pks = pks"
| "placePickups i (plat # rest) pks =
     (if length pks < 5
      then placePickups (i + 1) rest
             (pks @ [\<lparr> sp_x = clamp (b_x (pc_bounds plat) + b_w (pc_bounds plat) / 2) 0.05 0.95,
                       sp_y = b_y (pc_bounds plat) - ENTITY_OFFSET_Y,
                       pickup_type = (if i = 0 then ''health'' else ''coin'') \<rparr>])
      else pks)"

fun bridgePickups :: "PlatformCandidate list \<Rightarrow> PickupSpawn list \<Rightarrow> PickupSpawn list" where
  "bridgePickups [] pks = pks"
| "bridgePickups (bp # rest) pks =
     (if length pks \<ge> 4 then pks
      else bridgePickups rest
             (pks @ [\<lparr> sp_x = clamp (b_x (pc_bounds bp) + b_w (pc_bounds bp) / 2) 0.05 0.95,
                       sp_y = b_y (pc_bounds bp) - ENTITY_OFFSET_Y,
                       pickup_type = ''coin'' \<rparr>]))"

definition stepK :: "PlatformCandidate list \<Rightarrow> PlatformCandidate \<Rightarrow> PickupSpawn list" where
  "stepK plats gp =
     (let pickupPlatforms = filter (\<lambda>p. \<not> isGround p \<and> \<not> isBridge p) plats;
          pks1 = placePickups 0 pickupPlatforms [];
          pks2 = (if length pks1 < 3 then bridgePickups (filter isBridge plats) pks1 else pks1)
      in if length pks2 < 3
         then pks2 @
              [\<lparr> sp_x = 0.3, sp_y = b_y (pc_bounds gp) - ENTITY_OFFSET_Y, pickup_type = ''coin'' \<rparr>,
               \<lparr> sp_x = 0.5, sp_y = b_y (pc_bounds gp) - ENTITY_OFFSET_Y, pickup_type = ''coin'' \<rparr>]
         else pks2)"

subsection \<open>Step L: enemies\<close>

definition enemyPlatforms :: "PlatformCandidate list \<Rightarrow> PlatformCandidate list" where
  "enemyPlatforms plats =
     take 2 (filter (\<lambda>p. \<not> isGround p \<and> \<not> isBridge p \<and> b_w (pc_bounds p) > 0.15) plats)"

text \<open>
  \<^verbatim>\<open>objects.find((o) => o.type === 'platform' && o.bounds_normalized === plat.bounds)\<close>
  followed by the assignment to the object found, if any: the first object of type platform
  whose \<^verbatim>\<open>bounds_normalized\<close> is the very object \<open>FreshRef r\<close> gets the flag.
\<close>

fun markAnchor :: "nat \<Rightarrow> SceneObject list \<Rightarrow> SceneObject list" where
  "markAnchor r [] = []"
| "markAnchor r (ob # obs) =
     (if so_type ob = Platform \<and> so_bounds_ref ob = FreshRef r
      then ob\<lparr>enemy_spawn_anchor := Some True\<rparr> # obs
      else ob # markAnchor r obs)"

fun stepL_loop :: "PlatformCandidate list \<Rightarrow> EnemySpawn list \<times> SceneObject list \<Rightarrow>
    EnemySpawn list \<times> SceneObject list" where
  "stepL_loop [] (ens, obs) = (ens, obs)"
| "stepL_loop (plat # rest) (ens, obs) =
     stepL_loop rest
       (ens @ [\<lparr> sp_x = clamp (b_x (pc_bounds plat) + b_w (pc_bounds plat) / 2) 0.05 0.95,
                 sp_y = b_y (pc_bounds plat) - ENTITY_OFFSET_Y,
                 enemy_type = ''walker'' \<rparr>],
        markAnchor (pc_bounds_ref plat) obs)"

subsection \<open>Step M: the scene\<close>

definition buildLevel :: "DetectionResponse \<Rightarrow> error + SceneV1" where
  "buildLevel input =
     (let a = stepA (detections input);
          plats = finalPlatforms (detections input);
          objs = builtObjects plats a
      in case groundPlat plats of
           None \<Rightarrow> Inl TypeError
         | Some gp \<Rightarrow>
             (let playerSpawn = \<lparr> sp_x = 0.08, sp_y = b_y (pc_bounds gp) - ENTITY_OFFSET_Y \<rparr>
              in case highestPlat plats of
                   None \<Rightarrow> Inl TypeError
                 | Some hp \<Rightarrow>
                     (let pks = stepK plats gp;
                          (ens, objs') = stepL_loop (enemyPlatforms plats) ([], objs)
                      in Inr \<lparr> version = 1,
                               scene_image = \<lparr> img_w = img_w (in_image input),
                                               img_h = img_h (in_image input) \<rparr>,
                               objects = objs',
                               spawns = \<lparr> player = playerSpawn, exit = exitSpawn hp,
                                          enemies = ens, pickups = pks \<rparr>,
                               rules = [] \<rparr>)))"

section \<open>The builder in double arithmetic\<close>

text \<open>
  The source computes in doubles. Each definition of this section is the definition of the
  same name above, with a rounding function \<open>rnd\<close> applied to every decimal literal and to
  the result of every \<^verbatim>\<open>+\<close>, \<^verbatim>\<open>-\<close> and \<^verbatim>\<open>/\<close>, in the source's order of evaluation. With
  \<open>rnd = fl\<close> this is the arithmetic of the source; with the identity it is the exact
  builder above (\<open>buildLevelR_exact\<close>). \<^verbatim>\<open>Math.max\<close>, \<^verbatim>\<open>Math.min\<close>, \<^verbatim>\<open>Math.abs\<close> and the
  comparisons are exact on doubles. The comparators of \<^verbatim>\<open>sort\<close> return a rounded
  difference, whose sign is the sign of the exact difference (the difference of two doubles
  rounds to zero only when they are equal), so the sorts are those above. The steps without
  arithmetic (\<open>capPlatforms\<close>, \<open>builtObjects\<close>, \<open>groundPlat\<close>, \<open>highestPlat\<close>,
  \<open>markAnchor\<close>) are shared. The numbers of the input are taken as given.
\<close>

text \<open>
  IEEE 754 binary64 with round to nearest, ties to even, on the rationals: \<open>fl q\<close> is the
  double nearest to \<open>q\<close>. \<open>roundEven\<close> rounds to the nearest integer, ties to the even
  one. \<open>binade n q e\<close> finds the power of two at or below a positive \<open>q\<close> by halving or
  doubling, at most \<open>n\<close> times; 1100 steps reach the binade of every double. A double has
  53 significant bits, so the spacing in the binade \<open>2 ^ e\<close> is \<open>2 ^ (e - 52)\<close>; below
  \<open>2 ^ - 1022\<close> the spacing of the subnormal doubles applies. Overflow to infinity, NaN and
  the sign of zero are outside the model.
\<close>

definition roundEven :: "rat \<Rightarrow> int" where
  "roundEven q =
     (let n = \<lfloor>q\<rfloor>; r = q - of_int n
      in if r < 1 / 2 then n else if r > 1 / 2 then n + 1 else if even n then n else n + 1)"

fun binade :: "nat \<Rightarrow> rat \<Rightarrow> int \<Rightarrow> int" where
  "binade n q e =
     (if n = 0 then e
      else if q \<ge> 2 then binade (n - 1) (q / 2) (e + 1)
      else if q < 1 then binade (n - 1) (q * 2) (e - 1)
      else e)"

declare binade.simps [simp del]

definition fl :: "rat \<Rightarrow> rat" where
  "fl q =
     (if q = 0 then 0
      else let s = 52 - max (binade 1100 \<bar>q\<bar> 0) (- 1022)
           in if s \<ge> 0 then of_int (roundEven (q * 2 ^ nat s)) / 2 ^ nat s
              else of_int (roundEven (q / 2 ^ nat (- s))) * 2 ^ nat (- s))"

definition horizontalOverlapR :: "(rat \<Rightarrow> rat) \<Rightarrow> Bounds \<Rightarrow> Bounds \<Rightarrow> bool" where
  "horizontalOverlapR rnd a b \<longleftrightarrow>
     b_x a < rnd (b_x b + b_w b) \<and> rnd (b_x a + b_w a) > b_x b"

definition horizontalGapR :: "(rat \<Rightarrow> rat) \<Rightarrow> Bounds \<Rightarrow> Bounds \<Rightarrow> rat" where
  "horizontalGapR rnd a b =
     (let aRight = rnd (b_x a + b_w a);
          bRight = rnd (b_x b + b_w b)
      in if b_x a < bRight \<and> aRight > b_x b then rnd 0
         else min \<bar>rnd (b_x a - bRight)\<bar> \<bar>rnd (b_x b - aRight)\<bar>)"

definition platBoundsR :: "(rat \<Rightarrow> rat) \<Rightarrow> Detection \<Rightarrow> Bounds" where
  "platBoundsR rnd det =
     \<lparr> b_x = clamp (b_x (bounds_normalized det)) (rnd 0) (rnd 0.95),
       b_y = clamp (b_y (bounds_normalized det)) (rnd 0.05) (rnd 0.90),
       b_w = clamp (b_w (bounds_normalized det)) (rnd 0.05) (rnd 0.9),
       b_h = rnd PLATFORM_THICKNESS \<rparr>"

fun stepA_loopR :: "(rat \<Rightarrow> rat) \<Rightarrow> Detection list \<Rightarrow> extract_state \<Rightarrow> extract_state" where
  "stepA_loopR rnd [] s = s"
| "stepA_loopR rnd (det # dets) s =
     (if det_category det = Food
      then stepA_loopR rnd dets (s\<lparr>collectibleDetections := collectibleDetections s @ [det]\<rparr>)
      else if b_w (platBoundsR rnd det) < rnd MIN_PLATFORM_WIDTH
      then stepA_loopR rnd dets (s\<lparr>obstacleDetections := obstacleDetections s @ [det],
                                    nextRef := nextRef s + 1\<rparr>)
      else stepA_loopR rnd dets
             (s\<lparr>candidates := candidates s @
                   [\<lparr> pc_label = det_label det,
                      pc_category = det_category det,
                      pc_confidence = det_confidence det,
                      pc_bounds = platBoundsR rnd det,
                      pc_bounds_ref = nextRef s,
                      isBridge = False,
                      isGround = False,
                      enemyAnchor = (det_category det = Plant \<or> det_category det = Electric) \<rparr>],
                nextRef := nextRef s + 1\<rparr>))"

definition stepAR :: "(rat \<Rightarrow> rat) \<Rightarrow> Detection list \<Rightarrow> extract_state" where
  "stepAR rnd dets =
     stepA_loopR rnd dets
       \<lparr> candidates = [], collectibleDetections = [], obstacleDetections = [], nextRef = 0 \<rparr>"

definition groundR :: "(rat \<Rightarrow> rat) \<Rightarrow> nat \<Rightarrow> PlatformCandidate" where
  "groundR rnd r =
     \<lparr> pc_label = ''ground'',
       pc_category = Furniture,
       pc_confidence = rnd 1.0,
       pc_bounds = \<lparr> b_x = rnd 0.0, b_y = rnd 0.92, b_w = rnd 1.0,
                     b_h = rnd PLATFORM_THICKNESS \<rparr>,
       pc_bounds_ref = r,
       isBridge = False,
       isGround = True,
       enemyAnchor = False \<rparr>"

fun dedupR :: "(rat \<Rightarrow> rat) \<Rightarrow> PlatformCandidate list \<Rightarrow> PlatformCandidate list \<Rightarrow>
    PlatformCandidate list" where
  "dedupR rnd [] filtered = filtered"
| "dedupR rnd (cand # cands) filtered =
     (let tooClose = list_ex
            (\<lambda>existing. \<bar>rnd (b_y (pc_bounds existing) - b_y (pc_bounds cand))\<bar> < rnd 0.05 \<and>
                         horizontalOverlapR rnd (pc_bounds existing) (pc_bounds cand))
            filtered
      in if tooClose then dedupR rnd cands filtered else dedupR rnd cands (filtered @ [cand]))"

definition stepDR :: "(rat \<Rightarrow> rat) \<Rightarrow> extract_state \<Rightarrow> PlatformCandidate list" where
  "stepDR rnd s =
     take MAX_PLATFORMS (dedupR rnd (sortDescY (candidates s @ [groundR rnd (nextRef s)])) [])"

definition bridgeR :: "(rat \<Rightarrow> rat) \<Rightarrow> PlatformCandidate \<Rightarrow> PlatformCandidate \<Rightarrow> nat \<Rightarrow>
    PlatformCandidate" where
  "bridgeR rnd lower upper r =
     (let midY = rnd (rnd (b_y (pc_bounds lower) + b_y (pc_bounds upper)) / 2);
          lowerCenterX = rnd (b_x (pc_bounds lower) + rnd (b_w (pc_bounds lower) / 2));
          upperCenterX = rnd (b_x (pc_bounds upper) + rnd (b_w (pc_bounds upper) / 2));
          bridgeX = clamp (rnd (rnd (rnd (lowerCenterX + upperCenterX) / 2) - rnd 0.075))
                      (rnd 0.02) (rnd 0.85)
      in \<lparr> pc_label = ''bridge'',
           pc_category = Other,
           pc_confidence = rnd 1.0,
           pc_bounds = \<lparr> b_x = bridgeX, b_y = midY, b_w = rnd 0.15,
                         b_h = rnd PLATFORM_THICKNESS \<rparr>,
           pc_bounds_ref = r,
           isBridge = True,
           isGround = False,
           enemyAnchor = False \<rparr>)"

definition steppingStoneR :: "(rat \<Rightarrow> rat) \<Rightarrow> PlatformCandidate \<Rightarrow> PlatformCandidate \<Rightarrow> nat \<Rightarrow>
    PlatformCandidate" where
  "steppingStoneR rnd lower upper r =
     (let midY = rnd (rnd (b_y (pc_bounds lower) + b_y (pc_bounds upper)) / 2);
          midX = clamp
            (rnd (rnd (rnd (rnd (rnd (b_x (pc_bounds lower) + rnd (b_w (pc_bounds lower) / 2)) +
                                 b_x (pc_bounds upper)) +
                            rnd (b_w (pc_bounds upper) / 2)) / 2) -
                  rnd 0.075))
            (rnd 0.02) (rnd 0.85)
      in \<lparr> pc_label = ''stepping stone'',
           pc_category = Other,
           pc_confidence = rnd 1.0,
           pc_bounds = \<lparr> b_x = midX, b_y = midY, b_w = rnd 0.15,
                         b_h = rnd PLATFORM_THICKNESS \<rparr>,
           pc_bounds_ref = r,
           isBridge = True,
           isGround = False,
           enemyAnchor = False \<rparr>)"

function scanR :: "(rat \<Rightarrow> rat) \<Rightarrow> nat \<Rightarrow> PlatformCandidate list \<Rightarrow> nat \<Rightarrow>
    PlatformCandidate list option" where
  "scanR rnd i plats r =
     (if i + 1 < length plats then
        (let lower = plats ! i;
             upper = plats ! (i + 1);
             vertGap = rnd (b_y (pc_bounds lower) - b_y (pc_bounds upper))
         in if vertGap > rnd MAX_JUMP_HEIGHT
            then Some (spliceAt (i + 1) (bridgeR rnd lower upper r) plats)
            else (let hGap = horizontalGapR rnd (pc_bounds lower) (pc_bounds upper)
                  in if hGap > rnd MAX_HORIZONTAL_REACH
                     then Some (spliceAt (i + 1) (steppingStoneR rnd lower upper r) plats)
                     else scanR rnd (i + 1) plats r))
      else None)"
  by pat_completeness auto
termination
  by (relation "measure (\<lambda>(rnd, i, plats, r). length plats - i)") auto

declare scanR.simps [simp del]

definition repair_bodyR :: "(rat \<Rightarrow> rat) \<Rightarrow> repair_state \<Rightarrow> repair_state" where
  "repair_bodyR rnd s =
     (case scanR rnd 0 (platforms s) (freshRef s) of
        None \<Rightarrow>
          \<lparr> platforms = sortDescY (platforms s), bridgesInserted = False,
            iterations = iterations s + 1, freshRef = freshRef s \<rparr>
      | Some plats \<Rightarrow>
          \<lparr> platforms = sortDescY plats, bridgesInserted = True,
            iterations = iterations s + 1, freshRef = freshRef s + 1 \<rparr>)"

function repair_loopR :: "(rat \<Rightarrow> rat) \<Rightarrow> repair_state \<Rightarrow> repair_state" where
  "repair_loopR rnd s =
     (if bridgesInserted s \<and> iterations s < 10 then repair_loopR rnd (repair_bodyR rnd s) else s)"
  by pat_completeness auto
termination
  by (relation "measure (\<lambda>(rnd, s). 10 - iterations s)")
    (auto simp: repair_bodyR_def split: option.split)

declare repair_loopR.simps [simp del]

definition stepER :: "(rat \<Rightarrow> rat) \<Rightarrow> PlatformCandidate list \<Rightarrow> nat \<Rightarrow> repair_state" where
  "stepER rnd plats r =
     repair_loopR rnd \<lparr> platforms = sortDescY plats, bridgesInserted = True, iterations = 0,
                        freshRef = r \<rparr>"

definition finalPlatformsR :: "(rat \<Rightarrow> rat) \<Rightarrow> Detection list \<Rightarrow> PlatformCandidate list" where
  "finalPlatformsR rnd dets =
     (let a = stepAR rnd dets
      in capPlatforms (platforms (stepER rnd (stepDR rnd a) (nextRef a + 1))))"

definition exitSpawnR :: "(rat \<Rightarrow> rat) \<Rightarrow> PlatformCandidate \<Rightarrow> SpawnPoint" where
  "exitSpawnR rnd hp =
     \<lparr> sp_x = clamp (rnd (rnd (b_x (pc_bounds hp) + b_w (pc_bounds hp)) - rnd 0.05))
                (rnd 0.7) (rnd 0.95),
       sp_y = rnd (b_y (pc_bounds hp) - rnd ENTITY_OFFSET_Y) \<rparr>"

fun placePickupsR :: "(rat \<Rightarrow> rat) \<Rightarrow> nat \<Rightarrow> PlatformCandidate list \<Rightarrow> PickupSpawn list \<Rightarrow>
    PickupSpawn list" where
  "placePickupsR rnd i [] pks = pks"
| "placePickupsR rnd i (plat # rest) pks =
     (if length pks < 5
      then placePickupsR rnd (i + 1) rest
             (pks @ [\<lparr> sp_x = clamp (rnd (b_x (pc_bounds plat) + rnd (b_w (pc_bounds plat) / 2)))
                                (rnd 0.05) (rnd 0.95),
                       sp_y = rnd (b_y (pc_bounds plat) - rnd ENTITY_OFFSET_Y),
                       pickup_type = (if i = 0 then ''health'' else ''coin'') \<rparr>])
      else pks)"

fun bridgePickupsR :: "(rat \<Rightarrow> rat) \<Rightarrow> PlatformCandidate list \<Rightarrow> PickupSpawn list \<Rightarrow>
    PickupSpawn list" where
  "bridgePickupsR rnd [] pks = pks"
| "bridgePickupsR rnd (bp # rest) pks =
     (if length pks \<ge> 4 then pks
      else bridgePickupsR rnd rest
             (pks @ [\<lparr> sp_x = clamp (rnd (b_x (pc_bounds bp) + rnd (b_w (pc_bounds bp) / 2)))
                                (rnd 0.05) (rnd 0.95),
                       sp_y = rnd (b_y (pc_bounds bp) - rnd ENTITY_OFFSET_Y),
                       pickup_type = ''coin'' \<rparr>]))"

definition stepKR :: "(rat \<Rightarrow> rat) \<Rightarrow> PlatformCandidate list \<Rightarrow> PlatformCandidate \<Rightarrow>
    PickupSpawn list" where
  "stepKR rnd plats gp =
     (let pickupPlatforms = filter (\<lambda>p. \<not> isGround p \<and> \<not> isBridge p) plats;
          pks1 = placePickupsR rnd 0 pickupPlatforms [];
          pks2 = (if length pks1 < 3 then bridgePickupsR rnd (filter isBridge plats) pks1
                  else pks1)
      in if length pks2 < 3
         then pks2 @
              [\<lparr> sp_x = rnd 0.3, sp_y = rnd (b_y (pc_bounds gp) - rnd ENTITY_OFFSET_Y),
                 pickup_type = ''coin'' \<rparr>,
               \<lparr> sp_x = rnd 0.5, sp_y = rnd (b_y (pc_bounds gp) - rnd ENTITY_OFFSET_Y),
                 pickup_type = ''coin'' \<rparr>]
         else pks2)"

definition enemyPlatformsR :: "(rat \<Rightarrow> rat) \<Rightarrow> PlatformCandidate list \<Rightarrow> PlatformCandidate list" where
  "enemyPlatformsR rnd plats =
     take 2 (filter (\<lambda>p. \<not> isGround p \<and> \<not> isBridge p \<and> b_w (pc_bounds p) > rnd 0.15) plats)"

fun stepL_loopR :: "(rat \<Rightarrow> rat) \<Rightarrow> PlatformCandidate list \<Rightarrow>
    EnemySpawn list \<times> SceneObject list \<Rightarrow> EnemySpawn list \<times> SceneObject list" where
  "stepL_loopR rnd [] (ens, obs) = (ens, obs)"
| "stepL_loopR rnd (plat # rest) (ens, obs) =
     stepL_loopR rnd rest
       (ens @ [\<lparr> sp_x = clamp (rnd (b_x (pc_bounds plat) + rnd (b_w (pc_bounds plat) / 2)))
                          (rnd 0.05) (rnd 0.95),
                 sp_y = rnd (b_y (pc_bounds plat) - rnd ENTITY_OFFSET_Y),
                 enemy_type = ''walker'' \<rparr>],
        markAnchor (pc_bounds_ref plat) obs)"

definition buildLevelR :: "(rat \<Rightarrow> rat) \<Rightarrow> DetectionResponse \<Rightarrow> error + SceneV1" where
  "buildLevelR rnd input =
     (let a = stepAR rnd (detections input);
          plats = finalPlatformsR rnd (detections input);
          objs = builtObjects plats a
      in case groundPlat plats of
           None \<Rightarrow> Inl TypeError
         | Some gp \<Rightarrow>
             (let playerSpawn = \<lparr> sp_x = rnd 0.08,
                                  sp_y = rnd (b_y (pc_bounds gp) - rnd ENTITY_OFFSET_Y) \<rparr>
              in case highestPlat plats of
                   None \<Rightarrow> Inl TypeError
                 | Some hp \<Rightarrow>
                     (let pks = stepKR rnd plats gp;
                          (ens, objs') = stepL_loopR rnd (enemyPlatformsR rnd plats) ([], objs)
                      in Inr \<lparr> version = 1,
                               scene_image = \<lparr> img_w = img_w (in_image input),
                                               img_h = img_h (in_image input) \<rparr>,
                               objects = objs',
                               spawns = \<lparr> player = playerSpawn, exit = exitSpawnR rnd hp,
                                          enemies = ens, pickups = pks \<rparr>,
                               rules = [] \<rparr>)))"

section \<open>Properties\<close>

subsection \<open>Vocabulary of the statements\<close>

definition platformObjects :: "SceneV1 \<Rightarrow> SceneObject list" where
  "platformObjects scene = filter (\<lambda>ob. so_type ob = Platform) (objects scene)"

definition collectibleObjects :: "SceneV1 \<Rightarrow> SceneObject list" where
  "collectibleObjects scene = filter (\<lambda>ob. so_type ob = Collectible) (objects scene)"

text \<open>A spawn point stands on a platform: the fixed clearance above it, within its span.\<close>

definition onPlatform :: "SpawnPoint \<Rightarrow> Bounds \<Rightarrow> bool" where
  "onPlatform sp b \<longleftrightarrow>
     sp_y sp = b_y b - 0.06 \<and> b_x b \<le> sp_x sp \<and> sp_x sp \<le> b_x b + b_w b"

text \<open>The traversal constraints on a pair of platforms, the lower one first.\<close>

definition pairOK :: "Bounds \<Rightarrow> Bounds \<Rightarrow> bool" where
  "pairOK lower upper \<longleftrightarrow>
     b_y lower - b_y upper \<le> 0.25 \<and> horizontalGap lower upper \<le> 0.40"

subsection \<open>Notions used in the proofs and example inputs\<close>

text \<open>The key of the descending sort of steps C and E.\<close>

definition keyDesc :: "PlatformCandidate \<Rightarrow> rat" where
  "keyDesc p = - b_y (pc_bounds p)"

text \<open>What holds of every platform candidate the builder creates: its geometry is within the
  clamps, its category is not food, and it is either the ground or strictly above it.\<close>

definition platOK :: "PlatformCandidate \<Rightarrow> bool" where
  "platOK p \<longleftrightarrow>
     0 \<le> b_x (pc_bounds p) \<and> b_x (pc_bounds p) \<le> 0.95 \<and> 0.05 \<le> b_w (pc_bounds p) \<and>
     0.05 \<le> b_y (pc_bounds p) \<and> pc_category p \<noteq> Food \<and>
     (if isGround p then p = ground (pc_bounds_ref p) else b_y (pc_bounds p) < 0.92)"

text \<open>The identities of the \<^verbatim>\<open>Bounds\<close> objects of a platform list are pairwise distinct and below
  the allocation counter.\<close>

definition refsOK :: "PlatformCandidate list \<Rightarrow> nat \<Rightarrow> bool" where
  "refsOK ps n \<longleftrightarrow> distinct (map pc_bounds_ref ps) \<and> (\<forall>p\<in>set ps. pc_bounds_ref p < n)"

text \<open>The two tests of the scan on a pair of platforms.\<close>

definition vertViolation :: "PlatformCandidate \<Rightarrow> PlatformCandidate \<Rightarrow> bool" where
  "vertViolation lower upper \<longleftrightarrow> b_y (pc_bounds lower) - b_y (pc_bounds upper) > MAX_JUMP_HEIGHT"

definition horizViolation :: "PlatformCandidate \<Rightarrow> PlatformCandidate \<Rightarrow> bool" where
  "horizViolation lower upper \<longleftrightarrow>
     horizontalGap (pc_bounds lower) (pc_bounds upper) > MAX_HORIZONTAL_REACH"

text \<open>Every consecutive pair of a platform list is within both limits.\<close>

definition chainOK :: "PlatformCandidate list \<Rightarrow> bool" where
  "chainOK ps \<longleftrightarrow>
     (\<forall>k. k + 1 < length ps \<longrightarrow> pairOK (pc_bounds (ps ! k)) (pc_bounds (ps ! (k + 1))))"

text \<open>The invariant of the repair loop.\<close>

definition repairInv :: "repair_state \<Rightarrow> bool" where
  "repairInv s \<longleftrightarrow>
     sorted (map keyDesc (platforms s)) \<and> platforms s \<noteq> [] \<and> isGround (hd (platforms s)) \<and>
     (\<forall>p\<in>set (platforms s). platOK p) \<and> refsOK (platforms s) (freshRef s) \<and>
     (\<not> bridgesInserted s \<longrightarrow> chainOK (platforms s))"

text \<open>The effect of the marking of step L on one object, for the set \<open>R\<close> of identities of the
  chosen platforms' \<^verbatim>\<open>Bounds\<close> objects.\<close>

definition markAll :: "nat set \<Rightarrow> SceneObject \<Rightarrow> SceneObject" where
  "markAll R ob =
     (if so_type ob = Platform \<and> so_bounds_ref ob \<in> FreshRef ` R
      then ob\<lparr>enemy_spawn_anchor := Some True\<rparr> else ob)"

text \<open>The enemy spawn that step L pushes for a platform.\<close>

definition enemyOf :: "PlatformCandidate \<Rightarrow> EnemySpawn" where
  "enemyOf plat =
     \<lparr> sp_x = clamp (b_x (pc_bounds plat) + b_w (pc_bounds plat) / 2) 0.05 0.95,
       sp_y = b_y (pc_bounds plat) - ENTITY_OFFSET_Y,
       enemy_type = ''walker'' \<rparr>"

text \<open>The identities of the \<^verbatim>\<open>bounds_normalized\<close> objects of the platform objects.\<close>

definition platformRefs :: "SceneObject list \<Rightarrow> ref list" where
  "platformRefs obs = map so_bounds_ref (filter (\<lambda>ob. so_type ob = Platform) obs)"

text \<open>The scene that \<^verbatim>\<open>buildLevel\<close> returns, written without the loop of step L, given the
  highest platform \<open>hp\<close>.\<close>

definition sceneWith :: "DetectionResponse \<Rightarrow> PlatformCandidate \<Rightarrow> SceneV1" where
  "sceneWith inp hp =
     (let plats = finalPlatforms (detections inp) in
      \<lparr> version = 1,
        scene_image = \<lparr> img_w = img_w (in_image inp), img_h = img_h (in_image inp) \<rparr>,
        objects = map (markAll (pc_bounds_ref ` set (enemyPlatforms plats)))
                    (builtObjects plats (stepA (detections inp))),
        spawns = \<lparr> player = \<lparr> sp_x = 0.08, sp_y = b_y (pc_bounds (hd plats)) - ENTITY_OFFSET_Y \<rparr>,
                   exit = exitSpawn hp,
                   enemies = map enemyOf (enemyPlatforms plats),
                   pickups = stepK plats (hd plats) \<rparr>,
        rules = [] \<rparr>)"

text \<open>Example input: one shelf detected at the top edge of the image.\<close>

definition shelfTop :: Detection where
  "shelfTop =
     \<lparr> det_label = ''shelf'', det_category = Furniture, det_confidence = 0.9,
       bounds_normalized = \<lparr> b_x = 0.2, b_y = 0.02, b_w = 0.3, b_h = 0.1 \<rparr>,
       bounds_id = 0 \<rparr>"

definition shelfInput :: DetectionResponse where
  "shelfInput = \<lparr> in_image = \<lparr> img_w = 640, img_h = 480 \<rparr>, detections = [shelfTop] \<rparr>"

text \<open>The platform list that the repair loop produces for it: three bridges between the ground
  and the shelf.\<close>

definition shelfPlatforms :: "PlatformCandidate list" where
  "shelfPlatforms =
     [ground 1,
      \<lparr> pc_label = ''bridge'', pc_category = Other, pc_confidence = 1,
        pc_bounds = \<lparr> b_x = 31 / 80, b_y = 281 / 400, b_w = 0.15, b_h = 0.03 \<rparr>,
        pc_bounds_ref = 3, isBridge = True, isGround = False, enemyAnchor = False \<rparr>,
      \<lparr> pc_label = ''bridge'', pc_category = Other, pc_confidence = 1,
        pc_bounds = \<lparr> b_x = 7 / 20, b_y = 97 / 200, b_w = 0.15, b_h = 0.03 \<rparr>,
        pc_bounds_ref = 2, isBridge = True, isGround = False, enemyAnchor = False \<rparr>,
      \<lparr> pc_label = ''bridge'', pc_category = Other, pc_confidence = 1,
        pc_bounds = \<lparr> b_x = 5 / 16, b_y = 107 / 400, b_w = 0.15, b_h = 0.03 \<rparr>,
        pc_bounds_ref = 4, isBridge = True, isGround = False, enemyAnchor = False \<rparr>,
      \<lparr> pc_label = ''shelf'', pc_category = Furniture, pc_confidence = 0.9,
        pc_bounds = \<lparr> b_x = 0.2, b_y = 0.05, b_w = 0.3, b_h = 0.03 \<rparr>,
        pc_bounds_ref = 0, isBridge = False, isGround = False, enemyAnchor = False \<rparr>]"

text \<open>The same input's platform list before repair.\<close>

definition shelfStart :: "PlatformCandidate list" where
  "shelfStart =
     [ground 1,
      \<lparr> pc_label = ''shelf'', pc_category = Furniture, pc_confidence = 0.9,
        pc_bounds = \<lparr> b_x = 0.2, b_y = 0.05, b_w = 0.3, b_h = 0.03 \<rparr>,
        pc_bounds_ref = 0, isBridge = False, isGround = False, enemyAnchor = False \<rparr>]"

text \<open>Example input: one narrow box low on the left.\<close>

definition boxLeft :: Detection where
  "boxLeft =
     \<lparr> det_label = ''box'', det_category = Furniture, det_confidence = 0.9,
       bounds_normalized = \<lparr> b_x = 0, b_y = 0.8, b_w = 0.1, b_h = 0.1 \<rparr>,
       bounds_id = 0 \<rparr>"

definition boxInput :: DetectionResponse where
  "boxInput = \<lparr> in_image = \<lparr> img_w = 640, img_h = 480 \<rparr>, detections = [boxLeft] \<rparr>"

text \<open>Example input: no detections.\<close>

definition emptyInput :: DetectionResponse where
  "emptyInput = \<lparr> in_image = \<lparr> img_w = 640, img_h = 480 \<rparr>, detections = [] \<rparr>"

text \<open>Example input: six food detections.\<close>

definition snack :: "string \<Rightarrow> nat \<Rightarrow> Detection" where
  "snack l k =
     \<lparr> det_label = l, det_category = Food, det_confidence = 0.8,
       bounds_normalized = \<lparr> b_x = of_nat k / 10, b_y = 0.5, b_w = 0.05, b_h = 0.05 \<rparr>,
       bounds_id = k \<rparr>"

definition sixSnacks :: DetectionResponse where
  "sixSnacks =
     \<lparr> in_image = \<lparr> img_w = 640, img_h = 480 \<rparr>,
       detections = [snack ''apple'' 1, snack ''banana'' 2, snack ''cherry'' 3,
                     snack ''donut'' 4, snack ''egg'' 5, snack ''fig'' 6] \<rparr>"

subsection \<open>Evaluation on concrete inputs\<close>

lemmas consts_defs = MAX_JUMP_HEIGHT_def MAX_HORIZONTAL_REACH_def MIN_PLATFORM_WIDTH_def
  PLATFORM_THICKNESS_def MAX_PLATFORMS_def ENTITY_OFFSET_Y_def

lemmas eval_defs = consts_defs clamp_def horizontalOverlap_def horizontalGap_def
  nextId_def sortDescY_def sortAscY_def spliceAt_def platBounds_def stepA_def ground_def stepD_def
  bridge_def steppingStone_def repair_body_def stepE_def repaired_def finalPlatforms_def
  platformObject_def obstacleObject_def collectibleObject_def stepF_def stepG_def stepH_def
  builtObjects_def groundPlat_def highestPlat_def exitSpawn_def stepK_def enemyPlatforms_def
  buildLevel_def Let_def enumerate_eq_zip scan.simps repair_loop.simps capPlatforms.simps
  string_of_nat.simps

lemma empty_scene:
  "buildLevel \<lparr> in_image = img, detections = [] \<rparr> =
     Inr \<lparr> version = 1,
           scene_image = \<lparr> img_w = img_w img, img_h = img_h img \<rparr>,
           objects = [\<lparr> so_id = ''ground_0'', so_type = Platform, so_label = ''ground'',
                        so_confidence = 1,
                        so_bounds = \<lparr> b_x = 0, b_y = 0.92, b_w = 1, b_h = 0.03 \<rparr>,
                        so_bounds_ref = FreshRef 0, surface_type = Some Solid,
                        so_category = Some Furniture, enemy_spawn_anchor = Some False \<rparr>],
           spawns = \<lparr> player = \<lparr> sp_x = 0.08, sp_y = 0.86 \<rparr>,
                      exit = \<lparr> sp_x = 0.95, sp_y = 0.86 \<rparr>,
                      enemies = [],
                      pickups = [\<lparr> sp_x = 0.3, sp_y = 0.86, pickup_type = ''coin'' \<rparr>,
                                 \<lparr> sp_x = 0.5, sp_y = 0.86, pickup_type = ''coin'' \<rparr>] \<rparr>,
           rules = [] \<rparr>"
  by (simp add: eval_defs)

subsection \<open>Sorting, de-duplication and the candidates of step A\<close>

lemma capPlatforms_take: "capPlatforms plats = take 12 plats"
proof (induction plats rule: capPlatforms.induct)
  case (1 plats)
  show ?case
  proof (cases "length plats > 12")
    case True
    then have "capPlatforms plats = take 12 (butlast plats)"
      using "1.IH" by (simp add: capPlatforms.simps [of plats])
    also have "\<dots> = take 12 plats"
      using True by (simp add: take_butlast)
    finally show ?thesis .
  next
    case False
    then show ?thesis by (simp add: capPlatforms.simps [of plats])
  qed
qed

lemma sortDescY_sorted: "sorted (map keyDesc (sortDescY ps))"
  unfolding sortDescY_def keyDesc_def by (rule sorted_sort_key)

lemma sortDescY_id: "sorted (map keyDesc ps) \<Longrightarrow> sortDescY ps = ps"
  unfolding sortDescY_def keyDesc_def by (rule sort_key_id_if_sorted)

lemma dedup_sorted:
  "sorted (map f (filtered @ cands)) \<Longrightarrow> sorted (map f (dedup cands filtered))"
proof (induction cands arbitrary: filtered)
  case Nil
  then show ?case by simp
next
  case (Cons c cands)
  have drop_c: "sorted (map f (filtered @ cands))"
    using Cons.prems by (auto simp: sorted_append)
  have keep_c: "sorted (map f ((filtered @ [c]) @ cands))"
    using Cons.prems by simp
  show ?case
    using Cons.IH [OF drop_c] Cons.IH [OF keep_c] by (simp add: Let_def)
qed

lemma dedup_set: "set (dedup cands filtered) \<subseteq> set filtered \<union> set cands"
proof (induction cands arbitrary: filtered)
  case Nil
  then show ?case by simp
next
  case (Cons c cands)
  show ?case
    using Cons.IH [of filtered] Cons.IH [of "filtered @ [c]"] by (auto simp: Let_def)
qed

lemma dedup_prefix: "\<exists>ys. dedup cands filtered = filtered @ ys"
proof (induction cands arbitrary: filtered)
  case Nil
  then show ?case by simp
next
  case (Cons c cands)
  show ?case
    using Cons.IH [of filtered] Cons.IH [of "filtered @ [c]"] by (auto simp: Let_def)
qed

lemma dedup_distinct:
  "distinct (map g (filtered @ cands)) \<Longrightarrow> distinct (map g (dedup cands filtered))"
proof (induction cands arbitrary: filtered)
  case Nil
  then show ?case by simp
next
  case (Cons c cands)
  have drop_c: "distinct (map g (filtered @ cands))"
    using Cons.prems by auto
  have keep_c: "distinct (map g ((filtered @ [c]) @ cands))"
    using Cons.prems by auto
  show ?case
    using Cons.IH [OF drop_c] Cons.IH [OF keep_c] by (simp add: Let_def)
qed

lemma ground_sel [simp]:
  "isGround (ground r)" "\<not> isBridge (ground r)" "pc_bounds_ref (ground r) = r"
  "pc_category (ground r) = Furniture" "pc_label (ground r) = ''ground''"
  "\<not> enemyAnchor (ground r)"
  by (simp_all add: ground_def)

lemma clamp_bounds: "lo \<le> hi \<Longrightarrow> lo \<le> clamp v lo hi \<and> clamp v lo hi \<le> hi"
  by (simp add: clamp_def)

lemma platOK_ground: "platOK (ground r)"
  by (simp add: platOK_def) (simp add: ground_def)

lemma ground_bounds:
  "pc_bounds (ground r) = \<lparr> b_x = 0, b_y = 0.92, b_w = 1, b_h = 0.03 \<rparr>"
  by (simp add: ground_def PLATFORM_THICKNESS_def)

lemma platOK_isGround:
  assumes "platOK p" "isGround p"
  shows "p = ground (pc_bounds_ref p)"
  using assms by (simp add: platOK_def)

lemma platOK_ground_bounds:
  assumes "platOK p" "isGround p"
  shows "pc_bounds p = \<lparr> b_x = 0, b_y = 0.92, b_w = 1, b_h = 0.03 \<rparr>"
proof -
  have "pc_bounds p = pc_bounds (ground (pc_bounds_ref p))"
    using platOK_isGround [OF assms] by simp
  then show ?thesis by (simp only: ground_bounds)
qed

lemma platOK_not_ground_y:
  assumes "platOK p" "\<not> isGround p"
  shows "b_y (pc_bounds p) < 0.92"
  using assms by (simp add: platOK_def)

lemma platOK_y_le:
  assumes "platOK p"
  shows "b_y (pc_bounds p) \<le> 0.92"
proof (cases "isGround p")
  case True
  then show ?thesis using platOK_ground_bounds [OF assms] by simp
next
  case False
  then show ?thesis using platOK_not_ground_y [OF assms] by simp
qed

lemma platOK_detection:
  assumes "det_category det \<noteq> Food"
  shows "platOK \<lparr> pc_label = l, pc_category = det_category det, pc_confidence = c,
      pc_bounds = platBounds det, pc_bounds_ref = r, isBridge = False, isGround = False,
      enemyAnchor = e \<rparr>"
proof -
  have x: "0 \<le> clamp (b_x (bounds_normalized det)) 0 0.95 \<and>
           clamp (b_x (bounds_normalized det)) 0 0.95 \<le> 0.95"
    by (rule clamp_bounds) simp
  have y: "0.05 \<le> clamp (b_y (bounds_normalized det)) 0.05 0.90 \<and>
           clamp (b_y (bounds_normalized det)) 0.05 0.90 \<le> 0.90"
    by (rule clamp_bounds) simp
  have w: "0.05 \<le> clamp (b_w (bounds_normalized det)) 0.05 0.9 \<and>
           clamp (b_w (bounds_normalized det)) 0.05 0.9 \<le> 0.9"
    by (rule clamp_bounds) simp
  have "clamp (b_y (bounds_normalized det)) 0.05 0.90 < 0.92"
    using y by simp
  then show ?thesis
    using assms x y w by (simp add: platOK_def platBounds_def)
qed

lemma stepA_loop_food:
  "det_category det = Food \<Longrightarrow>
   stepA_loop (det # dets) s =
     stepA_loop dets (s\<lparr>collectibleDetections := collectibleDetections s @ [det]\<rparr>)"
  by simp

lemma stepA_loop_obstacle:
  "det_category det \<noteq> Food \<Longrightarrow> b_w (platBounds det) < MIN_PLATFORM_WIDTH \<Longrightarrow>
   stepA_loop (det # dets) s =
     stepA_loop dets (s\<lparr>obstacleDetections := obstacleDetections s @ [det],
                        nextRef := nextRef s + 1\<rparr>)"
  by simp

lemma stepA_loop_candidate:
  "det_category det \<noteq> Food \<Longrightarrow> \<not> b_w (platBounds det) < MIN_PLATFORM_WIDTH \<Longrightarrow>
   stepA_loop (det # dets) s =
     stepA_loop dets
       (s\<lparr>candidates := candidates s @
             [\<lparr> pc_label = det_label det, pc_category = det_category det,
                pc_confidence = det_confidence det, pc_bounds = platBounds det,
                pc_bounds_ref = nextRef s, isBridge = False, isGround = False,
                enemyAnchor = (det_category det = Plant \<or> det_category det = Electric) \<rparr>],
          nextRef := nextRef s + 1\<rparr>)"
  by simp

lemma stepA_loop_platOK:
  "\<forall>p\<in>set (candidates s). platOK p \<and> \<not> isGround p \<Longrightarrow>
   \<forall>p\<in>set (candidates (stepA_loop dets s)). platOK p \<and> \<not> isGround p"
proof (induction dets arbitrary: s)
  case Nil
  then show ?case by simp
next
  case (Cons det dets)
  show ?case
  proof (cases "det_category det = Food")
    case True
    show ?thesis
      unfolding stepA_loop_food [OF True]
      by (rule Cons.IH) (use Cons.prems in simp)
  next
    case nf: False
    show ?thesis
    proof (cases "b_w (platBounds det) < MIN_PLATFORM_WIDTH")
      case True
      show ?thesis
        unfolding stepA_loop_obstacle [OF nf True]
        by (rule Cons.IH) (use Cons.prems in simp)
    next
      case False
      show ?thesis
        unfolding stepA_loop_candidate [OF nf False]
        by (rule Cons.IH) (use Cons.prems platOK_detection [OF nf] in simp)
    qed
  qed
qed

lemma stepA_loop_refsOK:
  "refsOK (candidates s) (nextRef s) \<Longrightarrow>
   refsOK (candidates (stepA_loop dets s)) (nextRef (stepA_loop dets s))"
proof (induction dets arbitrary: s)
  case Nil
  then show ?case by simp
next
  case (Cons det dets)
  show ?case
  proof (cases "det_category det = Food")
    case True
    show ?thesis
      unfolding stepA_loop_food [OF True]
      by (rule Cons.IH) (use Cons.prems in simp)
  next
    case nf: False
    show ?thesis
    proof (cases "b_w (platBounds det) < MIN_PLATFORM_WIDTH")
      case True
      show ?thesis
        unfolding stepA_loop_obstacle [OF nf True]
        by (rule Cons.IH) (use Cons.prems in \<open>auto simp: refsOK_def less_Suc_eq\<close>)
    next
      case False
      show ?thesis
        unfolding stepA_loop_candidate [OF nf False]
        by (rule Cons.IH) (use Cons.prems in \<open>auto simp: refsOK_def less_Suc_eq\<close>)
    qed
  qed
qed

lemma stepA_platOK: "\<forall>p\<in>set (candidates (stepA dets)). platOK p \<and> \<not> isGround p"
  unfolding stepA_def by (rule stepA_loop_platOK) simp

lemma stepA_refsOK: "refsOK (candidates (stepA dets)) (nextRef (stepA dets))"
  unfolding stepA_def by (rule stepA_loop_refsOK) (simp add: refsOK_def)

subsection \<open>The platform list before repair\<close>

lemma take_sorted_map: "sorted (map f xs) \<Longrightarrow> sorted (map f (take n xs))"
  by (simp add: take_map [symmetric])

lemma take_distinct_map: "distinct (map f xs) \<Longrightarrow> distinct (map f (take n xs))"
  by (simp add: take_map [symmetric])

lemma distinct_map_insort_key:
  "distinct (map f (insort_key k x xs)) \<longleftrightarrow> f x \<notin> f ` set xs \<and> distinct (map f xs)"
  by (induction xs) (auto simp: set_insort_key)

lemma distinct_map_sort_key: "distinct (map f (sort_key k xs)) \<longleftrightarrow> distinct (map f xs)"
  by (induction xs) (simp_all add: distinct_map_insort_key)

lemma stepD_set:
  "set (stepD a) \<subseteq> insert (ground (nextRef a)) (set (candidates a))"
proof -
  have "set (stepD a) \<subseteq> set (dedup (sortDescY (candidates a @ [ground (nextRef a)])) [])"
    unfolding stepD_def by (rule set_take_subset)
  also have "\<dots> \<subseteq> set (sortDescY (candidates a @ [ground (nextRef a)]))"
    using dedup_set [of "sortDescY (candidates a @ [ground (nextRef a)])" "[]"] by simp
  also have "\<dots> = insert (ground (nextRef a)) (set (candidates a))"
    by (simp add: sortDescY_def)
  finally show ?thesis .
qed

lemma stepD_sorted: "sorted (map keyDesc (stepD a))"
proof -
  have "sorted (map keyDesc (dedup (sortDescY (candidates a @ [ground (nextRef a)])) []))"
    by (rule dedup_sorted) (simp add: sortDescY_sorted)
  then show ?thesis
    unfolding stepD_def by (rule take_sorted_map)
qed

lemma stepD_refsOK:
  assumes "refsOK (candidates a) (nextRef a)"
  shows "refsOK (stepD a) (nextRef a + 1)"
proof -
  let ?cs = "candidates a @ [ground (nextRef a)]"
  have d: "distinct (map pc_bounds_ref ?cs)"
    using assms by (auto simp: refsOK_def)
  have "distinct (map pc_bounds_ref (sortDescY ?cs))"
    using d unfolding sortDescY_def by (simp only: distinct_map_sort_key)
  then have "distinct (map pc_bounds_ref (dedup (sortDescY ?cs) []))"
    by (intro dedup_distinct) simp
  then have 1: "distinct (map pc_bounds_ref (stepD a))"
    unfolding stepD_def by (rule take_distinct_map)
  have 2: "\<forall>p\<in>set (stepD a). pc_bounds_ref p < nextRef a + 1"
    using stepD_set [of a] assms by (auto simp: refsOK_def less_Suc_eq)
  show ?thesis using 1 2 by (simp add: refsOK_def)
qed

lemma dedup_hd:
  "dedup (c # cands) [] \<noteq> [] \<and> hd (dedup (c # cands) []) = c"
proof -
  obtain ys where "dedup cands [c] = [c] @ ys"
    using dedup_prefix [of cands "[c]"] by blast
  then show ?thesis by simp
qed

lemma stepD_hd:
  assumes "\<forall>p\<in>set (candidates a). platOK p \<and> \<not> isGround p"
  shows "stepD a \<noteq> [] \<and> isGround (hd (stepD a))"
proof -
  let ?g = "ground (nextRef a)"
  let ?L = "sortDescY (candidates a @ [?g])"
  have len: "length ?L = length (candidates a) + 1"
    by (simp add: sortDescY_def)
  then obtain c cs where L: "?L = c # cs"
    by (cases ?L) auto
  have set_L: "set ?L = insert ?g (set (candidates a))"
    by (simp add: sortDescY_def)
  have sorted_L: "sorted (map keyDesc ?L)"
    by (rule sortDescY_sorted)
  have c_in: "c \<in> set ?L" using L by simp
  have g_in: "?g \<in> set ?L" using set_L by simp
  have "keyDesc c \<le> keyDesc ?g"
    using sorted_L g_in unfolding L by auto
  then have y: "0.92 \<le> b_y (pc_bounds c)"
    by (simp add: keyDesc_def ground_bounds)
  have "isGround c"
  proof (rule ccontr)
    assume ng: "\<not> isGround c"
    then have "c \<in> set (candidates a)"
      using c_in set_L by auto
    then have "platOK c" using assms by blast
    from platOK_not_ground_y [OF this ng] y show False by simp
  qed
  moreover have "stepD a \<noteq> [] \<and> hd (stepD a) = c"
    unfolding stepD_def L using dedup_hd [of c cs] by (simp add: MAX_PLATFORMS_def)
  ultimately show ?thesis by simp
qed

lemma stepD_platOK:
  assumes "\<forall>p\<in>set (candidates a). platOK p \<and> \<not> isGround p"
  shows "\<forall>p\<in>set (stepD a). platOK p"
  using stepD_set [of a] assms platOK_ground by blast

subsection \<open>The scan of the repair loop\<close>

lemma scan_step:
  "scan i plats r =
     (if i + 1 < length plats then
        if vertViolation (plats ! i) (plats ! (i + 1))
        then Some (spliceAt (i + 1) (bridge (plats ! i) (plats ! (i + 1)) r) plats)
        else if horizViolation (plats ! i) (plats ! (i + 1))
        then Some (spliceAt (i + 1) (steppingStone (plats ! i) (plats ! (i + 1)) r) plats)
        else scan (i + 1) plats r
      else None)"
  by (subst scan.simps) (simp add: Let_def vertViolation_def horizViolation_def)

lemma pairOK_iff:
  "pairOK (pc_bounds lower) (pc_bounds upper) \<longleftrightarrow>
     \<not> vertViolation lower upper \<and> \<not> horizViolation lower upper"
  by (auto simp: pairOK_def vertViolation_def horizViolation_def consts_defs)

lemma scan_None:
  "scan i plats r = None \<Longrightarrow> i \<le> k \<Longrightarrow> k + 1 < length plats \<Longrightarrow>
   pairOK (pc_bounds (plats ! k)) (pc_bounds (plats ! (k + 1)))"
proof (induction "length plats - i" arbitrary: i)
  case 0
  then show ?case by simp
next
  case (Suc n)
  from Suc.prems have step: "i + 1 < length plats" by simp
  from Suc.prems(1) step have
    ok: "\<not> vertViolation (plats ! i) (plats ! (i + 1))"
        "\<not> horizViolation (plats ! i) (plats ! (i + 1))"
    and rest: "scan (i + 1) plats r = None"
    by (simp_all add: scan_step [of i] split: if_splits)
  show ?case
  proof (cases "k = i")
    case True
    then show ?thesis using ok by (simp add: pairOK_iff)
  next
    case False
    with Suc.prems have "i + 1 \<le> k" by simp
    moreover have "n = length plats - (i + 1)" using Suc.hyps(2) by simp
    ultimately show ?thesis
      using Suc.hyps(1) [of "i + 1"] rest Suc.prems(3) by blast
  qed
qed

lemma scan_Some:
  "scan i plats r = Some plats' \<Longrightarrow>
   \<exists>j. i \<le> j \<and> j + 1 < length plats \<and>
     (\<forall>k. i \<le> k \<and> k < j \<longrightarrow> pairOK (pc_bounds (plats ! k)) (pc_bounds (plats ! (k + 1)))) \<and>
     (if vertViolation (plats ! j) (plats ! (j + 1))
      then plats' = spliceAt (j + 1) (bridge (plats ! j) (plats ! (j + 1)) r) plats
      else horizViolation (plats ! j) (plats ! (j + 1)) \<and>
           plats' = spliceAt (j + 1) (steppingStone (plats ! j) (plats ! (j + 1)) r) plats)"
proof (induction "length plats - i" arbitrary: i)
  case 0
  then show ?case by (simp add: scan_step [of i])
next
  case (Suc n)
  from Suc.prems have step: "i + 1 < length plats"
    by (simp add: scan_step [of i] split: if_splits)
  show ?case
  proof (cases "vertViolation (plats ! i) (plats ! (i + 1)) \<or>
                horizViolation (plats ! i) (plats ! (i + 1))")
    case True
    then have "if vertViolation (plats ! i) (plats ! (i + 1))
      then plats' = spliceAt (i + 1) (bridge (plats ! i) (plats ! (i + 1)) r) plats
      else horizViolation (plats ! i) (plats ! (i + 1)) \<and>
           plats' = spliceAt (i + 1) (steppingStone (plats ! i) (plats ! (i + 1)) r) plats"
      using Suc.prems step by (auto simp: scan_step [of i] split: if_splits)
    then show ?thesis
      using step by (intro exI [of _ i]) (auto split: if_splits)
  next
    case False
    then have rest: "scan (i + 1) plats r = Some plats'"
      using Suc.prems step by (simp add: scan_step [of i])
    have "n = length plats - (i + 1)" using Suc.hyps(2) by simp
    from Suc.hyps(1) [OF this rest] obtain j where
      j: "i + 1 \<le> j" "j + 1 < length plats"
         "\<forall>k. i + 1 \<le> k \<and> k < j \<longrightarrow> pairOK (pc_bounds (plats ! k)) (pc_bounds (plats ! (k + 1)))"
         "if vertViolation (plats ! j) (plats ! (j + 1))
          then plats' = spliceAt (j + 1) (bridge (plats ! j) (plats ! (j + 1)) r) plats
          else horizViolation (plats ! j) (plats ! (j + 1)) \<and>
               plats' = spliceAt (j + 1) (steppingStone (plats ! j) (plats ! (j + 1)) r) plats"
      by blast
    have "pairOK (pc_bounds (plats ! k)) (pc_bounds (plats ! (k + 1)))" if "i \<le> k" "k < j" for k
    proof (cases "k = i")
      case True
      then show ?thesis using False by (simp add: pairOK_iff)
    next
      case False
      then show ?thesis using that j(3) by simp
    qed
    then show ?thesis
      using j by (intro exI [of _ j]) (auto split: if_splits)
  qed
qed

lemma splice_decomp:
  assumes "j + 1 < length ps"
  shows "\<exists>A C. ps = A @ ps ! j # ps ! (j + 1) # C \<and>
               spliceAt (j + 1) b ps = A @ ps ! j # b # ps ! (j + 1) # C \<and> length A = j"
proof -
  have 1: "ps = take j ps @ ps ! j # drop (Suc j) ps"
    using assms by (intro id_take_nth_drop) simp
  have 2: "drop (Suc j) ps = ps ! (Suc j) # drop (Suc (Suc j)) ps"
    using assms by (intro Cons_nth_drop_Suc [symmetric]) simp
  have 3: "take (Suc j) ps = take j ps @ [ps ! j]"
    using assms by (intro take_Suc_conv_app_nth) simp
  have "spliceAt (j + 1) b ps = take j ps @ ps ! j # b # ps ! (j + 1) # drop (Suc (Suc j)) ps"
    by (simp add: spliceAt_def 2 3)
  moreover have "ps = take j ps @ ps ! j # ps ! (j + 1) # drop (Suc (Suc j)) ps"
    using 1 2 by simp
  moreover have "length (take j ps) = j" using assms by simp
  ultimately show ?thesis by blast
qed

subsection \<open>Inserting a synthesized platform\<close>

lemma bridge_sel [simp]:
  "pc_bounds_ref (bridge l u r) = r" "\<not> isGround (bridge l u r)" "isBridge (bridge l u r)"
  "pc_category (bridge l u r) = Other" "pc_label (bridge l u r) = ''bridge''"
  "\<not> enemyAnchor (bridge l u r)"
  "b_y (pc_bounds (bridge l u r)) = (b_y (pc_bounds l) + b_y (pc_bounds u)) / 2"
  "b_w (pc_bounds (bridge l u r)) = 0.15"
  "b_x (pc_bounds (bridge l u r)) =
     clamp ((b_x (pc_bounds l) + b_w (pc_bounds l) / 2 +
             (b_x (pc_bounds u) + b_w (pc_bounds u) / 2)) / 2 - 0.075) 0.02 0.85"
  by (simp_all add: bridge_def Let_def)

lemma steppingStone_sel [simp]:
  "pc_bounds_ref (steppingStone l u r) = r" "\<not> isGround (steppingStone l u r)"
  "isBridge (steppingStone l u r)"
  "pc_category (steppingStone l u r) = Other" "pc_label (steppingStone l u r) = ''stepping stone''"
  "\<not> enemyAnchor (steppingStone l u r)"
  "b_y (pc_bounds (steppingStone l u r)) = (b_y (pc_bounds l) + b_y (pc_bounds u)) / 2"
  "b_w (pc_bounds (steppingStone l u r)) = 0.15"
  "b_x (pc_bounds (steppingStone l u r)) =
     clamp ((b_x (pc_bounds l) + b_w (pc_bounds l) / 2 +
             b_x (pc_bounds u) + b_w (pc_bounds u) / 2) / 2 - 0.075) 0.02 0.85"
  by (simp_all add: steppingStone_def Let_def)

lemma no_violation_between_grounds:
  assumes "platOK l" "isGround l" "platOK u" "isGround u"
  shows "\<not> vertViolation l u \<and> \<not> horizViolation l u"
  using platOK_ground_bounds [OF assms(1,2)] platOK_ground_bounds [OF assms(3,4)]
  by (simp add: vertViolation_def horizViolation_def horizontalGap_def consts_defs)

lemma mid_below_ground:
  assumes "platOK l" "platOK u" "vertViolation l u \<or> horizViolation l u"
  shows "(b_y (pc_bounds l) + b_y (pc_bounds u)) / 2 < 0.92"
proof -
  have "\<not> (isGround l \<and> isGround u)"
    using no_violation_between_grounds assms by blast
  then have "b_y (pc_bounds l) < 0.92 \<or> b_y (pc_bounds u) < 0.92"
    using platOK_not_ground_y assms(1,2) by blast
  then show ?thesis
    using platOK_y_le [OF assms(1)] platOK_y_le [OF assms(2)] by auto
qed

lemma platOK_y_ge: "platOK p \<Longrightarrow> 0.05 \<le> b_y (pc_bounds p)"
  by (simp add: platOK_def)

lemma platOK_synth:
  assumes "platOK l" "platOK u" "vertViolation l u \<or> horizViolation l u"
    and b: "b = bridge l u r \<or> b = steppingStone l u r"
  shows "platOK b"
proof -
  have x: "0.02 \<le> clamp v 0.02 0.85 \<and> clamp v 0.02 0.85 \<le> 0.85" for v
    by (rule clamp_bounds) simp
  have y1: "(b_y (pc_bounds l) + b_y (pc_bounds u)) / 2 < 0.92"
    by (rule mid_below_ground [OF assms(1-3)])
  have y2: "0.05 \<le> (b_y (pc_bounds l) + b_y (pc_bounds u)) / 2"
    using platOK_y_ge [OF assms(1)] platOK_y_ge [OF assms(2)] by simp
  have bx: "0 \<le> b_x (pc_bounds b) \<and> b_x (pc_bounds b) \<le> 0.95"
  proof -
    obtain v where "b_x (pc_bounds b) = clamp v 0.02 0.85"
      using b by auto
    then show ?thesis using x [of v] by simp
  qed
  have others: "b_w (pc_bounds b) = 0.15" "pc_category b = Other" "\<not> isGround b"
    "b_y (pc_bounds b) = (b_y (pc_bounds l) + b_y (pc_bounds u)) / 2"
    using b by auto
  show ?thesis
    using bx y1 y2 others by (simp add: platOK_def)
qed

lemma sorted_insert_between:
  fixes l :: "'a::linorder"
  assumes "sorted (xs @ l # u # zs)" "l \<le> b" "b \<le> u"
  shows "sorted (xs @ l # b # u # zs)"
  using assms by (auto simp: sorted_append intro: order_trans)

lemma set_spliceAt: "set (spliceAt k b ps) = insert b (set ps)"
proof -
  have "set (take k ps) \<union> set (drop k ps) = set ps"
    using set_append [of "take k ps" "drop k ps"] by simp
  then show ?thesis by (auto simp: spliceAt_def)
qed

lemma length_spliceAt: "length (spliceAt k b ps) = length ps + 1"
  by (simp add: spliceAt_def)

lemma spliceAt_sorted:
  assumes "sorted (map keyDesc ps)" "j + 1 < length ps"
    and "b_y (pc_bounds b) = (b_y (pc_bounds (ps ! j)) + b_y (pc_bounds (ps ! (j + 1)))) / 2"
  shows "sorted (map keyDesc (spliceAt (j + 1) b ps))"
proof -
  obtain A C where
    ps: "ps = A @ ps ! j # ps ! (j + 1) # C" and
    sp: "spliceAt (j + 1) b ps = A @ ps ! j # b # ps ! (j + 1) # C"
    using splice_decomp [OF assms(2)] by blast
  let ?l = "ps ! j" and ?u = "ps ! (j + 1)"
  have s: "sorted (map keyDesc A @ keyDesc ?l # keyDesc ?u # map keyDesc C)"
    using assms(1) by (subst (asm) ps) simp
  then have "keyDesc ?l \<le> keyDesc ?u"
    by (simp add: sorted_append)
  then have "keyDesc ?l \<le> keyDesc b \<and> keyDesc b \<le> keyDesc ?u"
    using assms(3) by (simp add: keyDesc_def)
  then have "sorted (map keyDesc A @ keyDesc ?l # keyDesc b # keyDesc ?u # map keyDesc C)"
    using s by (intro sorted_insert_between) simp_all
  then show ?thesis by (subst sp) simp
qed

lemma spliceAt_refsOK:
  assumes "refsOK ps r" "pc_bounds_ref b = r"
  shows "refsOK (spliceAt k b ps) (r + 1)"
proof -
  have "map pc_bounds_ref (take k ps) @ map pc_bounds_ref (drop k ps) = map pc_bounds_ref ps"
    by (simp flip: map_append)
  then have d: "distinct (map pc_bounds_ref (take k ps) @ map pc_bounds_ref (drop k ps))"
    using assms(1) by (simp only: refsOK_def)
  have notin: "r \<notin> pc_bounds_ref ` set ps"
    using assms(1) by (auto simp: refsOK_def)
  have sub: "set (take k ps) \<subseteq> set ps" "set (drop k ps) \<subseteq> set ps"
    by (rule set_take_subset, rule set_drop_subset)
  have "distinct (map pc_bounds_ref (spliceAt k b ps))"
    using d notin sub assms(2) by (auto simp: spliceAt_def)
  moreover have "\<forall>p\<in>set (spliceAt k b ps). pc_bounds_ref p < r + 1"
    using assms by (auto simp: set_spliceAt refsOK_def less_Suc_eq)
  ultimately show ?thesis by (simp add: refsOK_def)
qed

lemma hd_spliceAt: "ps \<noteq> [] \<Longrightarrow> hd (spliceAt (j + 1) b ps) = hd ps"
  by (cases ps) (simp_all add: spliceAt_def)

subsection \<open>The invariant of the repair loop\<close>

lemma repair_body_None:
  assumes "scan 0 (platforms s) (freshRef s) = None" "sorted (map keyDesc (platforms s))"
  shows "repair_body s =
    \<lparr> platforms = platforms s, bridgesInserted = False, iterations = iterations s + 1,
      freshRef = freshRef s \<rparr>"
  using assms by (simp add: repair_body_def sortDescY_id)

lemma repair_body_Some:
  assumes "scan 0 (platforms s) (freshRef s) = Some ps'" "sorted (map keyDesc ps')"
  shows "repair_body s =
    \<lparr> platforms = ps', bridgesInserted = True, iterations = iterations s + 1,
      freshRef = freshRef s + 1 \<rparr>"
  using assms by (simp add: repair_body_def sortDescY_id)

lemma repair_body_inv:
  assumes "repairInv s"
  shows "repairInv (repair_body s)"
proof (cases "scan 0 (platforms s) (freshRef s)")
  case None
  have "chainOK (platforms s)"
    unfolding chainOK_def using scan_None [OF None] by simp
  then show ?thesis
    using assms repair_body_None [OF None] by (simp add: repairInv_def)
next
  case (Some ps')
  let ?ps = "platforms s" and ?r = "freshRef s"
  from scan_Some [OF Some] obtain j b where
    j: "j + 1 < length ?ps" and
    viol: "vertViolation (?ps ! j) (?ps ! (j + 1)) \<or> horizViolation (?ps ! j) (?ps ! (j + 1))" and
    b: "b = bridge (?ps ! j) (?ps ! (j + 1)) ?r \<or> b = steppingStone (?ps ! j) (?ps ! (j + 1)) ?r" and
    ps': "ps' = spliceAt (j + 1) b ?ps"
    by (metis (full_types))
  have inv: "sorted (map keyDesc ?ps)" "?ps \<noteq> []" "isGround (hd ?ps)"
    "\<forall>p\<in>set ?ps. platOK p" "refsOK ?ps ?r"
    using assms by (simp_all add: repairInv_def)
  have lu: "platOK (?ps ! j)" "platOK (?ps ! (j + 1))"
    using inv(4) j by simp_all
  have okb: "platOK b"
    by (rule platOK_synth [OF lu viol b])
  have yb: "b_y (pc_bounds b) =
      (b_y (pc_bounds (?ps ! j)) + b_y (pc_bounds (?ps ! (j + 1)))) / 2"
    using b by auto
  have rb: "pc_bounds_ref b = ?r" using b by auto
  have 1: "sorted (map keyDesc ps')"
    unfolding ps' by (rule spliceAt_sorted [OF inv(1) j yb])
  have 2: "ps' \<noteq> []" "isGround (hd ps')"
    unfolding ps' using inv(2,3) hd_spliceAt [of ?ps j b] by (simp_all add: spliceAt_def)
  have 3: "\<forall>p\<in>set ps'. platOK p"
    unfolding ps' using inv(4) okb by (simp add: set_spliceAt)
  have 4: "refsOK ps' (?r + 1)"
    unfolding ps' by (rule spliceAt_refsOK [OF inv(5) rb])
  show ?thesis
    using 1 2 3 4 repair_body_Some [OF Some 1] by (simp add: repairInv_def)
qed

lemma repair_loop_inv: "repairInv s \<Longrightarrow> repairInv (repair_loop s)"
proof (induction s rule: repair_loop.induct)
  case (1 s)
  show ?case
  proof (cases "bridgesInserted s \<and> iterations s < 10")
    case True
    then have "repair_loop s = repair_loop (repair_body s)"
      by (subst repair_loop.simps) simp
    then show ?thesis
      using "1.IH" [OF True repair_body_inv [OF "1.prems"]] by simp
  next
    case False
    then have "repair_loop s = s"
      by (subst repair_loop.simps) auto
    then show ?thesis using "1.prems" by simp
  qed
qed

lemma repair_loop_exit:
  "\<not> (bridgesInserted (repair_loop s) \<and> iterations (repair_loop s) < 10)"
proof (induction s rule: repair_loop.induct)
  case (1 s)
  show ?case
  proof (cases "bridgesInserted s \<and> iterations s < 10")
    case True
    then have "repair_loop s = repair_loop (repair_body s)"
      by (subst repair_loop.simps) simp
    then show ?thesis
      using "1.IH" [OF True] by simp
  next
    case False
    then have "repair_loop s = s"
      by (subst repair_loop.simps) auto
    then show ?thesis using False by simp
  qed
qed

lemma repair_loop_iterations: "iterations s \<le> 10 \<Longrightarrow> iterations (repair_loop s) \<le> 10"
proof (induction s rule: repair_loop.induct)
  case (1 s)
  show ?case
  proof (cases "bridgesInserted s \<and> iterations s < 10")
    case True
    then have "repair_loop s = repair_loop (repair_body s)"
      by (subst repair_loop.simps) simp
    moreover have "iterations (repair_body s) \<le> 10"
      using True by (simp add: repair_body_def split: option.split)
    ultimately show ?thesis
      using "1.IH" [OF True] by simp
  next
    case False
    then have "repair_loop s = s"
      by (subst repair_loop.simps) auto
    then show ?thesis using "1.prems" by simp
  qed
qed

lemma repaired_exit:
  "iterations (repaired dets) \<le> 10"
  "\<not> (bridgesInserted (repaired dets) \<and> iterations (repaired dets) < 10)"
  by (simp_all add: repaired_def Let_def stepE_def repair_loop_iterations repair_loop_exit)

lemma repaired_inv: "repairInv (repaired dets)"
proof -
  let ?a = "stepA dets"
  have s: "sorted (map keyDesc (stepD ?a))" by (rule stepD_sorted)
  have "repairInv \<lparr> platforms = stepD ?a, bridgesInserted = True, iterations = 0,
      freshRef = nextRef ?a + 1 \<rparr>"
    using s stepD_hd [OF stepA_platOK] stepD_platOK [OF stepA_platOK]
      stepD_refsOK [OF stepA_refsOK]
    by (simp add: repairInv_def)
  then have "repairInv (stepE (stepD ?a) (nextRef ?a + 1))"
    unfolding stepE_def sortDescY_id [OF s] by (rule repair_loop_inv)
  then show ?thesis by (simp add: repaired_def Let_def)
qed

lemma finalPlatforms_take: "finalPlatforms dets = take 12 (platforms (repaired dets))"
  by (simp add: finalPlatforms_def capPlatforms_take)

lemma final_facts:
  "finalPlatforms dets \<noteq> []" "isGround (hd (finalPlatforms dets))"
  "\<forall>p\<in>set (finalPlatforms dets). platOK p"
  "distinct (map pc_bounds_ref (finalPlatforms dets))"
  "sorted (map keyDesc (finalPlatforms dets))"
  "length (finalPlatforms dets) \<le> 12"
proof -
  let ?ps = "platforms (repaired dets)"
  have inv: "sorted (map keyDesc ?ps)" "?ps \<noteq> []" "isGround (hd ?ps)"
    "\<forall>p\<in>set ?ps. platOK p" "refsOK ?ps (freshRef (repaired dets))"
    using repaired_inv [of dets] by (simp_all add: repairInv_def)
  show "finalPlatforms dets \<noteq> []" "isGround (hd (finalPlatforms dets))"
    using inv(2,3) by (simp_all add: finalPlatforms_take)
  show "\<forall>p\<in>set (finalPlatforms dets). platOK p"
    using inv(4) by (auto simp: finalPlatforms_take dest: in_set_takeD)
  show "distinct (map pc_bounds_ref (finalPlatforms dets))"
    unfolding finalPlatforms_take using inv(5) by (intro take_distinct_map) (simp add: refsOK_def)
  show "sorted (map keyDesc (finalPlatforms dets))"
    unfolding finalPlatforms_take using inv(1) by (rule take_sorted_map)
  show "length (finalPlatforms dets) \<le> 12"
    by (simp add: finalPlatforms_take)
qed

lemma final_chainOK:
  assumes "\<not> bridgesInserted (repaired dets)"
  shows "chainOK (finalPlatforms dets)"
proof -
  have "chainOK (platforms (repaired dets))"
    using repaired_inv [of dets] assms by (simp add: repairInv_def)
  then show ?thesis
    by (simp add: chainOK_def finalPlatforms_take)
qed

subsection \<open>Scene objects and enemy marking\<close>

lemma markAll_sel [simp]:
  "so_type (markAll R ob) = so_type ob" "so_bounds_ref (markAll R ob) = so_bounds_ref ob"
  "surface_type (markAll R ob) = surface_type ob" "so_bounds (markAll R ob) = so_bounds ob"
  "so_label (markAll R ob) = so_label ob" "so_id (markAll R ob) = so_id ob"
  "so_category (markAll R ob) = so_category ob"
  by (simp_all add: markAll_def)

lemma markAll_empty [simp]: "markAll {} ob = ob"
  by (simp add: markAll_def)

lemma markAll_insert: "markAll R (markAll {r} ob) = markAll (insert r R) ob"
  by (auto simp: markAll_def)

lemma platformRefs_map_markAll [simp]: "platformRefs (map (markAll R) obs) = platformRefs obs"
  by (induction obs) (simp_all add: platformRefs_def)

lemma markAnchor_map:
  "distinct (platformRefs obs) \<Longrightarrow> markAnchor r obs = map (markAll {r}) obs"
proof (induction obs)
  case Nil
  then show ?case by simp
next
  case (Cons ob obs)
  show ?case
  proof (cases "so_type ob = Platform \<and> so_bounds_ref ob = FreshRef r")
    case True
    then have "FreshRef r \<notin> set (platformRefs obs)"
      using Cons.prems by (simp add: platformRefs_def)
    then have "\<forall>x\<in>set obs. markAll {r} x = x"
      by (force simp: platformRefs_def markAll_def)
    then have "map (markAll {r}) obs = obs"
      by (simp add: map_idI)
    moreover have "markAll {r} ob = ob\<lparr>enemy_spawn_anchor := Some True\<rparr>"
      using True by (simp add: markAll_def)
    ultimately show ?thesis using True by simp
  next
    case False
    moreover have "distinct (platformRefs obs)"
      using Cons.prems by (simp add: platformRefs_def split: if_splits)
    ultimately show ?thesis
      using Cons.IH by (auto simp: markAll_def)
  qed
qed

lemma stepL_loop_eq:
  "distinct (platformRefs obs) \<Longrightarrow>
   stepL_loop eps (ens, obs) =
     (ens @ map enemyOf eps, map (markAll (pc_bounds_ref ` set eps)) obs)"
proof (induction eps arbitrary: ens obs)
  case Nil
  then show ?case by (simp add: map_idI)
next
  case (Cons p eps)
  let ?obs = "map (markAll {pc_bounds_ref p}) obs"
  have d: "distinct (platformRefs ?obs)"
    using Cons.prems by simp
  have "stepL_loop (p # eps) (ens, obs) = stepL_loop eps (ens @ [enemyOf p], ?obs)"
    using Cons.prems by (simp add: markAnchor_map enemyOf_def)
  also have "\<dots> = ((ens @ [enemyOf p]) @ map enemyOf eps,
      map (markAll (pc_bounds_ref ` set eps)) ?obs)"
    by (rule Cons.IH [OF d])
  finally show ?case
    by (simp add: markAll_insert o_def insert_commute)
qed

lemma stepF_nth: "i < length plats \<Longrightarrow> stepF plats ! i = platformObject i (plats ! i)"
  by (simp add: stepF_def nth_enumerate_eq)

lemma length_stepF [simp]: "length (stepF plats) = length plats"
  by (simp add: stepF_def)

lemma stepF_type: "\<forall>ob\<in>set (stepF plats). so_type ob = Platform"
  by (auto simp: stepF_def platformObject_def)

lemma stepG_type: "\<forall>ob\<in>set (stepG n dets). so_type ob = Obstacle"
  by (auto simp: stepG_def obstacleObject_def)

lemma stepH_type: "\<forall>ob\<in>set (stepH n dets). so_type ob = Collectible"
  by (auto simp: stepH_def collectibleObject_def)

lemma filter_all: "\<forall>x\<in>set xs. P x \<Longrightarrow> filter P xs = xs"
  by (induction xs) auto

lemma filter_none: "\<forall>x\<in>set xs. \<not> P x \<Longrightarrow> filter P xs = []"
  by (induction xs) auto

lemma builtObjects_platforms:
  "filter (\<lambda>ob. so_type ob = Platform) (builtObjects plats a) = stepF plats"
proof -
  have "filter (\<lambda>ob. so_type ob = Platform) (stepF plats) = stepF plats"
    by (rule filter_all) (rule stepF_type)
  moreover have "filter (\<lambda>ob. so_type ob = Platform) (stepG n dets) = []" for n dets
    by (rule filter_none) (use stepG_type in auto)
  moreover have "filter (\<lambda>ob. so_type ob = Platform) (stepH n dets) = []" for n dets
    by (rule filter_none) (use stepH_type in auto)
  ultimately show ?thesis by (simp add: builtObjects_def Let_def)
qed

lemma builtObjects_collectibles:
  "filter (\<lambda>ob. so_type ob = Collectible) (builtObjects plats a) =
     stepH (length plats + length (take 4 (obstacleDetections a))) (collectibleDetections a)"
proof -
  have "filter (\<lambda>ob. so_type ob = Collectible) (stepF plats) = []"
    by (rule filter_none) (use stepF_type in auto)
  moreover have "filter (\<lambda>ob. so_type ob = Collectible) (stepG n dets) = []" for n dets
    by (rule filter_none) (use stepG_type in auto)
  moreover have "filter (\<lambda>ob. so_type ob = Collectible) (stepH n dets) = stepH n dets" for n dets
    by (rule filter_all) (rule stepH_type)
  moreover have "length (stepG n dets) = length (take 4 dets)" for n dets
    by (simp add: stepG_def)
  ultimately show ?thesis by (simp add: builtObjects_def Let_def)
qed

lemma builtObjects_refs:
  "platformRefs (builtObjects plats a) = map (\<lambda>p. FreshRef (pc_bounds_ref p)) plats"
proof -
  have "map so_bounds_ref (stepF plats) = map (\<lambda>p. FreshRef (pc_bounds_ref p)) plats"
    by (rule nth_equalityI) (simp_all add: stepF_nth platformObject_def)
  then show ?thesis by (simp add: platformRefs_def builtObjects_platforms)
qed

lemma builtObjects_nth:
  "i < length plats \<Longrightarrow> builtObjects plats a ! i = platformObject i (plats ! i)"
  by (simp add: builtObjects_def Let_def nth_append stepF_nth)

lemma builtObjects_distinct:
  "distinct (map pc_bounds_ref plats) \<Longrightarrow> distinct (platformRefs (builtObjects plats a))"
  by (simp add: builtObjects_refs distinct_map inj_on_def)

subsection \<open>The scene returned for every input\<close>

lemma groundPlat_hd:
  "plats \<noteq> [] \<Longrightarrow> isGround (hd plats) \<Longrightarrow> groundPlat plats = Some (hd plats)"
  by (cases plats) (simp_all add: groundPlat_def)

lemma highestPlat_Some:
  assumes "plats \<noteq> []"
  shows "\<exists>hp. highestPlat plats = Some hp \<and> hp \<in> set plats \<and>
    (\<forall>p\<in>set plats. b_y (pc_bounds hp) \<le> b_y (pc_bounds p))"
proof -
  let ?L = "sortAscY plats"
  have "length ?L = length plats" by (simp add: sortAscY_def)
  then obtain hp rest where L: "?L = hp # rest"
    using assms by (cases ?L) auto
  have set_L: "set ?L = set plats" by (simp add: sortAscY_def)
  have "sorted (map (\<lambda>p. b_y (pc_bounds p)) ?L)"
    unfolding sortAscY_def by (rule sorted_sort_key)
  then have "\<forall>p\<in>set ?L. b_y (pc_bounds hp) \<le> b_y (pc_bounds p)"
    unfolding L by auto
  moreover have "hp \<in> set ?L" unfolding L by simp
  moreover have "highestPlat plats = Some hp" by (simp add: highestPlat_def L)
  ultimately show ?thesis using set_L by auto
qed

lemma buildLevel_Inr:
  "\<exists>hp. buildLevel inp = Inr (sceneWith inp hp) \<and>
     hp \<in> set (finalPlatforms (detections inp)) \<and>
     (\<forall>p\<in>set (finalPlatforms (detections inp)). b_y (pc_bounds hp) \<le> b_y (pc_bounds p))"
proof -
  let ?plats = "finalPlatforms (detections inp)"
  obtain hp where hp: "highestPlat ?plats = Some hp" "hp \<in> set ?plats"
    "\<forall>p\<in>set ?plats. b_y (pc_bounds hp) \<le> b_y (pc_bounds p)"
    using highestPlat_Some [OF final_facts(1)] by blast
  have gp: "groundPlat ?plats = Some (hd ?plats)"
    by (rule groundPlat_hd [OF final_facts(1,2)])
  have d: "distinct (platformRefs (builtObjects ?plats (stepA (detections inp))))"
    by (rule builtObjects_distinct [OF final_facts(4)])
  have "buildLevel inp = Inr (sceneWith inp hp)"
    by (simp add: buildLevel_def sceneWith_def Let_def gp hp(1) stepL_loop_eq [OF d])
  then show ?thesis using hp by blast
qed

lemma filter_map_markAll:
  "filter (\<lambda>ob. so_type ob = T) (map (markAll R) obs) =
   map (markAll R) (filter (\<lambda>ob. so_type ob = T) obs)"
  by (induction obs) simp_all

lemma platformObjects_sceneWith:
  "platformObjects (sceneWith inp hp) =
     map (markAll (pc_bounds_ref ` set (enemyPlatforms (finalPlatforms (detections inp)))))
       (stepF (finalPlatforms (detections inp)))"
  by (simp add: platformObjects_def sceneWith_def Let_def filter_map_markAll
      builtObjects_platforms)

lemma enemyPlatforms_subset: "set (enemyPlatforms plats) \<subseteq> {p \<in> set plats. \<not> isGround p \<and> \<not> isBridge p \<and> b_w (pc_bounds p) > 0.15}"
proof -
  have "set (enemyPlatforms plats) \<subseteq>
      set (filter (\<lambda>p. \<not> isGround p \<and> \<not> isBridge p \<and> b_w (pc_bounds p) > 0.15) plats)"
    unfolding enemyPlatforms_def by (rule set_take_subset)
  then show ?thesis by auto
qed

lemma markAll_not_chosen:
  assumes "distinct (map pc_bounds_ref plats)" "p \<in> set plats" "p \<notin> set (enemyPlatforms plats)"
  shows "markAll (pc_bounds_ref ` set (enemyPlatforms plats)) (platformObject i p) =
    platformObject i p"
proof -
  have "pc_bounds_ref p \<notin> pc_bounds_ref ` set (enemyPlatforms plats)"
  proof
    assume "pc_bounds_ref p \<in> pc_bounds_ref ` set (enemyPlatforms plats)"
    then obtain q where q: "q \<in> set (enemyPlatforms plats)" "pc_bounds_ref q = pc_bounds_ref p"
      by auto
    then have "q \<in> set plats" using enemyPlatforms_subset by blast
    then have "q = p"
      using assms(1,2) q(2) by (auto simp: distinct_map inj_on_def)
    then show False using q(1) assms(3) by simp
  qed
  then show ?thesis by (auto simp: markAll_def platformObject_def)
qed

lemma markAll_chosen:
  assumes "p \<in> set (enemyPlatforms plats)"
  shows "markAll (pc_bounds_ref ` set (enemyPlatforms plats)) (platformObject i p) =
    (platformObject i p)\<lparr>enemy_spawn_anchor := Some True\<rparr>"
  using assms by (simp add: markAll_def platformObject_def)

subsection \<open>Platform count, surface, pickups, enemy anchors, reachability\<close>

text \<open>
  Claim C2. For every input, \<^verbatim>\<open>buildLevel\<close> returns a scene whose objects of type platform
  number at least 1 and at most 12, and the object built from the synthetic ground platform
  (id \<^verbatim>\<open>ground_0\<close>, label \<^verbatim>\<open>ground\<close>, the ground's bounds) is one of them.
\<close>

theorem platform_count_and_ground:
  "\<exists>scene r.
     buildLevel inp = Inr scene \<and>
     1 \<le> length (platformObjects scene) \<and> length (platformObjects scene) \<le> 12 \<and>
     platformObject 0 (ground r) \<in> set (platformObjects scene)"
proof -
  let ?plats = "finalPlatforms (detections inp)"
  let ?M = "markAll (pc_bounds_ref ` set (enemyPlatforms ?plats))"
  obtain hp where scene: "buildLevel inp = Inr (sceneWith inp hp)"
    using buildLevel_Inr by blast
  have po: "platformObjects (sceneWith inp hp) = map ?M (stepF ?plats)"
    by (rule platformObjects_sceneWith)
  have ne: "?plats \<noteq> []" and gr: "isGround (hd ?plats)"
    by (rule final_facts)+
  have len: "1 \<le> length ?plats" "length ?plats \<le> 12"
    using ne final_facts(6) [of "detections inp"] by (simp_all add: Suc_le_eq)
  have hd_in: "hd ?plats \<in> set ?plats" using ne by simp
  have "platOK (hd ?plats)" using final_facts(3) hd_in by blast
  from platOK_isGround [OF this gr] obtain r where r: "hd ?plats = ground r" by blast
  have "hd ?plats \<notin> set (enemyPlatforms ?plats)"
    using enemyPlatforms_subset [of ?plats] gr by blast
  from markAll_not_chosen [OF final_facts(4) hd_in this]
  have "?M (platformObject 0 (hd ?plats)) = platformObject 0 (hd ?plats)" .
  moreover have "map ?M (stepF ?plats) ! 0 = ?M (platformObject 0 (hd ?plats))"
    using ne by (simp add: stepF_nth hd_conv_nth)
  moreover have "map ?M (stepF ?plats) ! 0 \<in> set (map ?M (stepF ?plats))"
    using ne by (intro nth_mem) simp
  ultimately have "platformObject 0 (ground r) \<in> set (platformObjects (sceneWith inp hp))"
    using r po by simp
  then show ?thesis
    using scene len po by (intro exI [of _ "sceneWith inp hp"] exI [of _ r]) simp
qed

text \<open>
  Claim C10. In every scene that \<^verbatim>\<open>buildLevel\<close> returns, and it returns one for every
  input, each object of type platform has \<^verbatim>\<open>surface_type\<close> \<^verbatim>\<open>solid\<close>, whatever the category
  of its detection.
\<close>

theorem platforms_are_solid:
  "\<exists>scene. buildLevel inp = Inr scene \<and>
     list_all (\<lambda>ob. surface_type ob = Some Solid) (platformObjects scene)"
proof -
  obtain hp where scene: "buildLevel inp = Inr (sceneWith inp hp)"
    using buildLevel_Inr by blast
  have "list_all (\<lambda>ob. surface_type ob = Some Solid) (platformObjects (sceneWith inp hp))"
    unfolding platformObjects_sceneWith
    by (simp add: list_all_iff stepF_def platformObject_def split_beta)
  then show ?thesis using scene by blast
qed

lemma length_stepK: "2 \<le> length (stepK plats gp)"
  by (simp add: stepK_def Let_def)

text \<open>
  Claim C8. For every input, the empty detections list included, the scene returned has
  at least two pickups.
\<close>

theorem pickup_floor:
  "\<exists>scene. buildLevel inp = Inr scene \<and> 2 \<le> length (pickups (spawns scene))"
proof -
  obtain hp where scene: "buildLevel inp = Inr (sceneWith inp hp)"
    using buildLevel_Inr by blast
  have "2 \<le> length (pickups (spawns (sceneWith inp hp)))"
    by (simp add: sceneWith_def Let_def length_stepK)
  then show ?thesis using scene by blast
qed

text \<open>
  Claim C6. Let the platform at position \<open>i\<close> of the final platform list be one of those
  chosen by enemy placement (the first two that are neither ground nor bridge and are wider
  than \<open>0.15\<close>). Then the object at position \<open>i\<close> of the scene's objects is the object built
  from that very platform (its id carries the counter value \<open>i\<close>), with
  \<^verbatim>\<open>enemy_spawn_anchor\<close> set to true. The source finds the object by the identity of its
  \<^verbatim>\<open>Bounds\<close> object, which every candidate owns alone; the platform's geometry as a value
  plays no part.
\<close>

theorem enemy_platform_anchor:
  assumes "i < length (finalPlatforms (detections inp))"
    and "finalPlatforms (detections inp) ! i \<in> set (enemyPlatforms (finalPlatforms (detections inp)))"
  shows "\<exists>scene. buildLevel inp = Inr scene \<and>
     objects scene ! i =
       (platformObject i (finalPlatforms (detections inp) ! i))\<lparr>enemy_spawn_anchor := Some True\<rparr>"
proof -
  let ?plats = "finalPlatforms (detections inp)"
  obtain hp where scene: "buildLevel inp = Inr (sceneWith inp hp)"
    using buildLevel_Inr by blast
  have "i < length (builtObjects ?plats (stepA (detections inp)))"
    using assms(1) by (simp add: builtObjects_def Let_def)
  then have "objects (sceneWith inp hp) ! i =
      markAll (pc_bounds_ref ` set (enemyPlatforms ?plats)) (platformObject i (?plats ! i))"
    using assms(1) by (simp add: sceneWith_def Let_def builtObjects_nth)
  then show ?thesis
    using scene markAll_chosen [OF assms(2)] by simp
qed

lemma sorted_keyDesc_iff:
  "sorted (map keyDesc ps) \<longleftrightarrow>
   sorted_wrt (\<lambda>lower upper. b_y lower \<ge> b_y upper) (map pc_bounds ps)"
  by (simp add: sorted_map sorted_wrt_map keyDesc_def)

lemma platform_bounds_sceneWith:
  "map so_bounds (platformObjects (sceneWith inp hp)) =
   map pc_bounds (finalPlatforms (detections inp))"
  unfolding platformObjects_sceneWith
  by (rule nth_equalityI) (simp_all add: stepF_nth platformObject_def)

text \<open>
  Claim C1. The repair loop never runs more than 10 iterations. Unless it ends with the cap
  exhausted and \<^verbatim>\<open>bridgesInserted\<close> still true (the last scan made an insertion), that is,
  whenever its last full scan found no violation, the platform objects of the scene are, in
  the order emitted, sorted by descending \<open>y\<close>, and every consecutive pair \<open>(lower, upper)\<close>
  has \<open>lower.y - upper.y \<le> 0.25\<close> and \<open>horizontalGap lower upper \<le> 0.40\<close>. A violation
  can therefore remain only when the cap was exhausted.
\<close>

theorem reachability_when_repair_converges:
  assumes "\<not> bridgesInserted (repaired (detections inp)) \<or>
    iterations (repaired (detections inp)) < 10"
  shows "iterations (repaired (detections inp)) \<le> 10 \<and>
    (\<exists>scene. buildLevel inp = Inr scene \<and>
     (let bs = map so_bounds (platformObjects scene) in
        sorted_wrt (\<lambda>lower upper. b_y lower \<ge> b_y upper) bs \<and>
        (\<forall>k. k + 1 < length bs \<longrightarrow>
           b_y (bs ! k) - b_y (bs ! (k + 1)) \<le> 0.25 \<and>
           horizontalGap (bs ! k) (bs ! (k + 1)) \<le> 0.40)))"
proof -
  let ?plats = "finalPlatforms (detections inp)"
  have conv: "\<not> bridgesInserted (repaired (detections inp))"
    using assms repaired_exit(2) [of "detections inp"] by auto
  obtain hp where scene: "buildLevel inp = Inr (sceneWith inp hp)"
    using buildLevel_Inr by blast
  have bs: "map so_bounds (platformObjects (sceneWith inp hp)) = map pc_bounds ?plats"
    by (rule platform_bounds_sceneWith)
  have 1: "sorted_wrt (\<lambda>lower upper. b_y lower \<ge> b_y upper) (map pc_bounds ?plats)"
    using final_facts(5) [of "detections inp"] by (simp only: sorted_keyDesc_iff)
  have 2: "pairOK (map pc_bounds ?plats ! k) (map pc_bounds ?plats ! (k + 1))"
    if "k + 1 < length (map pc_bounds ?plats)" for k
    using final_chainOK [OF conv] that by (simp add: chainOK_def)
  have "\<exists>scene. buildLevel inp = Inr scene \<and>
     (let bs = map so_bounds (platformObjects scene) in
        sorted_wrt (\<lambda>lower upper. b_y lower \<ge> b_y upper) bs \<and>
        (\<forall>k. k + 1 < length bs \<longrightarrow>
           b_y (bs ! k) - b_y (bs ! (k + 1)) \<le> 0.25 \<and>
           horizontalGap (bs ! k) (bs ! (k + 1)) \<le> 0.40))"
    using scene 1 2 unfolding bs [symmetric] Let_def pairOK_def
    by (intro exI [of _ "sceneWith inp hp"]) simp
  then show ?thesis
    using repaired_exit(1) [of "detections inp"] by (rule conjI [rotated])
qed

subsection \<open>A shelf at the top edge\<close>

lemma repaired_shelf:
  "repaired [shelfTop] =
     \<lparr> platforms = shelfPlatforms, bridgesInserted = False, iterations = 4, freshRef = 5 \<rparr>"
  by (simp add: shelfTop_def shelfPlatforms_def eval_defs)

lemma finalPlatforms_shelf: "finalPlatforms [shelfTop] = shelfPlatforms"
  unfolding finalPlatforms_def repaired_shelf
  by (simp add: shelfPlatforms_def capPlatforms.simps)

lemma detections_shelfInput: "detections shelfInput = [shelfTop]"
  by (simp add: shelfInput_def)

theorem reachability_when_repair_converges_witness:
  "\<not> bridgesInserted (repaired (detections shelfInput)) \<and>
   iterations (repaired (detections shelfInput)) = 4 \<and>
   (\<exists>scene. buildLevel shelfInput = Inr scene \<and>
     (let bs = map so_bounds (platformObjects scene) in
        sorted_wrt (\<lambda>lower upper. b_y lower \<ge> b_y upper) bs \<and>
        (\<forall>k. k + 1 < length bs \<longrightarrow>
           b_y (bs ! k) - b_y (bs ! (k + 1)) \<le> 0.25 \<and>
           horizontalGap (bs ! k) (bs ! (k + 1)) \<le> 0.40)))"
proof -
  have h: "\<not> bridgesInserted (repaired (detections shelfInput))"
    "iterations (repaired (detections shelfInput)) = 4"
    by (simp_all add: detections_shelfInput repaired_shelf)
  from h(1) have "\<not> bridgesInserted (repaired (detections shelfInput)) \<or>
      iterations (repaired (detections shelfInput)) < 10" ..
  from reachability_when_repair_converges [OF this, THEN conjunct2] h
  show ?thesis by (intro conjI)
qed

theorem enemy_platform_anchor_witness:
  "4 < length (finalPlatforms (detections shelfInput)) \<and>
   finalPlatforms (detections shelfInput) ! 4
     \<in> set (enemyPlatforms (finalPlatforms (detections shelfInput))) \<and>
   (\<exists>scene. buildLevel shelfInput = Inr scene \<and>
      objects scene ! 4 =
        (platformObject 4 (finalPlatforms (detections shelfInput) ! 4))
          \<lparr>enemy_spawn_anchor := Some True\<rparr>)"
proof -
  have 1: "4 < length (finalPlatforms (detections shelfInput))"
    by (simp add: detections_shelfInput finalPlatforms_shelf shelfPlatforms_def)
  have 2: "finalPlatforms (detections shelfInput) ! 4
      \<in> set (enemyPlatforms (finalPlatforms (detections shelfInput)))"
    by (simp add: detections_shelfInput finalPlatforms_shelf shelfPlatforms_def
        enemyPlatforms_def)
  from enemy_platform_anchor [OF 1 2] 1 2 show ?thesis by blast
qed

text \<open>
  Claim C5 (evaluation at the failing input). For the single furniture detection at
  \<open>y = 0.02\<close>, whose platform surface is clamped to \<open>y = 0.05\<close>, the exit, the first pickup and
  the enemy are placed at \<open>y = 0.05 - 0.06 = -0.01\<close>, outside \<open>[0, 1]\<close>.
\<close>

theorem spawn_above_top_edge:
  "\<exists>scene. buildLevel shelfInput = Inr scene \<and>
     sp_y (exit (spawns scene)) = - 0.01 \<and>
     map sp_y (pickups (spawns scene)) = [- 0.01, 257 / 400, 17 / 40, 83 / 400] \<and>
     map sp_y (enemies (spawns scene)) = [- 0.01]"
proof -
  obtain hp where scene: "buildLevel shelfInput = Inr (sceneWith shelfInput hp)"
    and hp: "hp \<in> set (finalPlatforms (detections shelfInput))"
      "\<forall>p\<in>set (finalPlatforms (detections shelfInput)). b_y (pc_bounds hp) \<le> b_y (pc_bounds p)"
    using buildLevel_Inr by blast
  have y: "b_y (pc_bounds hp) = 1 / 20"
    using hp unfolding detections_shelfInput finalPlatforms_shelf
    by (auto simp: shelfPlatforms_def ground_def)
  have e1: "sp_y (exit (spawns (sceneWith shelfInput hp))) = - 0.01"
    by (simp add: sceneWith_def Let_def exitSpawn_def ENTITY_OFFSET_Y_def y)
  have e2: "map sp_y (pickups (spawns (sceneWith shelfInput hp))) =
      [- 0.01, 257 / 400, 17 / 40, 83 / 400]"
    by (simp add: sceneWith_def Let_def detections_shelfInput finalPlatforms_shelf shelfPlatforms_def
        stepK_def ground_def clamp_def ENTITY_OFFSET_Y_def)
  have e3: "map sp_y (enemies (spawns (sceneWith shelfInput hp))) = [- 0.01]"
    by (simp add: sceneWith_def Let_def detections_shelfInput finalPlatforms_shelf shelfPlatforms_def
        enemyPlatforms_def enemyOf_def ground_def clamp_def ENTITY_OFFSET_Y_def)
  show ?thesis
  proof (intro exI conjI)
    show "buildLevel shelfInput = Inr (sceneWith shelfInput hp)" by (rule scene)
  qed (rule e1 e2 e3)+
qed

subsection \<open>What the repair loop inserts\<close>

text \<open>
  Claim C7. When a scan of the repair loop fires, it fires on the first consecutive pair
  \<open>(lower, upper)\<close> that violates a constraint, and splices between the two one platform
  \<open>b\<close> of width \<open>0.15\<close>, with \<open>y\<close> the mean of the two \<open>y\<close>, marked \<^verbatim>\<open>isBridge\<close>, and placed
  so that its centre is the midpoint of the two platforms' centres: its left edge is that
  midpoint less half its width (\<open>0.075\<close>), clamped to \<open>[0.02, 0.85]\<close>. The platform is a
  \<^verbatim>\<open>bridge\<close> exactly when the vertical gap exceeds \<open>0.25\<close>, and a \<^verbatim>\<open>stepping stone\<close> exactly when
  it does not and the horizontal gap exceeds \<open>0.40\<close>; both are sized by the same rule.
\<close>

theorem repair_inserts_centred_platform:
  assumes "scan 0 plats r = Some plats'"
  shows "\<exists>j b. j + 1 < length plats \<and> plats' = spliceAt (j + 1) b plats \<and>
     (\<forall>k<j. pairOK (pc_bounds (plats ! k)) (pc_bounds (plats ! (k + 1)))) \<and>
     \<not> pairOK (pc_bounds (plats ! j)) (pc_bounds (plats ! (j + 1))) \<and>
     (let lower = pc_bounds (plats ! j); upper = pc_bounds (plats ! (j + 1)) in
        b_w (pc_bounds b) = 0.15 \<and>
        b_y (pc_bounds b) = (b_y lower + b_y upper) / 2 \<and>
        b_x (pc_bounds b) =
          clamp ((b_x lower + b_w lower / 2 + (b_x upper + b_w upper / 2)) / 2 - 0.075)
            0.02 0.85 \<and>
        0.02 \<le> b_x (pc_bounds b) \<and> b_x (pc_bounds b) \<le> 0.85 \<and>
        isBridge b \<and>
        (pc_label b = ''bridge'' \<longleftrightarrow> b_y lower - b_y upper > 0.25) \<and>
        (pc_label b = ''stepping stone'' \<longleftrightarrow>
           \<not> b_y lower - b_y upper > 0.25 \<and> horizontalGap lower upper > 0.40))"
proof -
  from scan_Some [OF assms] obtain j where
    j: "j + 1 < length plats" and
    before: "\<forall>k. 0 \<le> k \<and> k < j \<longrightarrow> pairOK (pc_bounds (plats ! k)) (pc_bounds (plats ! (k + 1)))" and
    fired: "if vertViolation (plats ! j) (plats ! (j + 1))
      then plats' = spliceAt (j + 1) (bridge (plats ! j) (plats ! (j + 1)) r) plats
      else horizViolation (plats ! j) (plats ! (j + 1)) \<and>
           plats' = spliceAt (j + 1) (steppingStone (plats ! j) (plats ! (j + 1)) r) plats"
    by blast
  have x: "0.02 \<le> clamp v 0.02 0.85 \<and> clamp v 0.02 0.85 \<le> 0.85" for v
    by (rule clamp_bounds) simp
  show ?thesis
  proof (cases "vertViolation (plats ! j) (plats ! (j + 1))")
    case True
    then have "plats' = spliceAt (j + 1) (bridge (plats ! j) (plats ! (j + 1)) r) plats"
      using fired by simp
    moreover have "\<not> pairOK (pc_bounds (plats ! j)) (pc_bounds (plats ! (j + 1)))"
      using True by (simp add: pairOK_iff)
    moreover have "b_y (pc_bounds (plats ! j)) - b_y (pc_bounds (plats ! (j + 1))) > 0.25"
      using True by (simp add: vertViolation_def MAX_JUMP_HEIGHT_def)
    ultimately show ?thesis
      using j before x
      by (intro exI [of _ j] exI [of _ "bridge (plats ! j) (plats ! (j + 1)) r"])
        (simp add: Let_def)
  next
    case False
    then have "plats' = spliceAt (j + 1) (steppingStone (plats ! j) (plats ! (j + 1)) r) plats"
      and h: "horizViolation (plats ! j) (plats ! (j + 1))"
      using fired by simp_all
    moreover have "\<not> pairOK (pc_bounds (plats ! j)) (pc_bounds (plats ! (j + 1)))"
      using h by (simp add: pairOK_iff)
    moreover have "\<not> b_y (pc_bounds (plats ! j)) - b_y (pc_bounds (plats ! (j + 1))) > 0.25"
      using False by (simp add: vertViolation_def MAX_JUMP_HEIGHT_def)
    moreover have "horizontalGap (pc_bounds (plats ! j)) (pc_bounds (plats ! (j + 1))) > 0.40"
      using h by (simp add: horizViolation_def MAX_HORIZONTAL_REACH_def)
    ultimately show ?thesis
      using j before x
      by (intro exI [of _ j] exI [of _ "steppingStone (plats ! j) (plats ! (j + 1)) r"])
        (simp add: Let_def add.assoc)
  qed
qed

lemma stepD_shelf: "stepD (stepA [shelfTop]) = shelfStart"
  by (simp add: shelfTop_def shelfStart_def eval_defs)

theorem repair_inserts_centred_platform_witness:
  "scan 0 shelfStart 2 = Some (spliceAt 1 (bridge (shelfStart ! 0) (shelfStart ! 1) 2) shelfStart) \<and>
   (\<exists>j b. j + 1 < length shelfStart \<and>
     spliceAt 1 (bridge (shelfStart ! 0) (shelfStart ! 1) 2) shelfStart =
       spliceAt (j + 1) b shelfStart \<and>
     (\<forall>k<j. pairOK (pc_bounds (shelfStart ! k)) (pc_bounds (shelfStart ! (k + 1)))) \<and>
     \<not> pairOK (pc_bounds (shelfStart ! j)) (pc_bounds (shelfStart ! (j + 1))) \<and>
     (let lower = pc_bounds (shelfStart ! j); upper = pc_bounds (shelfStart ! (j + 1)) in
        b_w (pc_bounds b) = 0.15 \<and>
        b_y (pc_bounds b) = (b_y lower + b_y upper) / 2 \<and>
        b_x (pc_bounds b) =
          clamp ((b_x lower + b_w lower / 2 + (b_x upper + b_w upper / 2)) / 2 - 0.075)
            0.02 0.85 \<and>
        0.02 \<le> b_x (pc_bounds b) \<and> b_x (pc_bounds b) \<le> 0.85 \<and>
        isBridge b \<and>
        (pc_label b = ''bridge'' \<longleftrightarrow> b_y lower - b_y upper > 0.25) \<and>
        (pc_label b = ''stepping stone'' \<longleftrightarrow>
           \<not> b_y lower - b_y upper > 0.25 \<and> horizontalGap lower upper > 0.40)))"
proof -
  have h: "scan 0 shelfStart 2 =
      Some (spliceAt 1 (bridge (shelfStart ! 0) (shelfStart ! 1) 2) shelfStart)"
    by (subst scan.simps) (simp add: shelfStart_def ground_def Let_def MAX_JUMP_HEIGHT_def)
  from repair_inserts_centred_platform [OF h] h show ?thesis by (rule conjI [rotated])
qed

subsection \<open>Player spawn and exit\<close>

lemma exit_in_span_iff:
  assumes "platOK hp"
  shows "onPlatform (exitSpawn hp) (pc_bounds hp) \<longleftrightarrow>
    0.7 \<le> b_x (pc_bounds hp) + b_w (pc_bounds hp)"
proof -
  have g: "0 \<le> b_x (pc_bounds hp)" "b_x (pc_bounds hp) \<le> 0.95" "0.05 \<le> b_w (pc_bounds hp)"
    using assms by (simp_all add: platOK_def)
  show ?thesis
    using g by (auto simp: onPlatform_def exitSpawn_def clamp_def ENTITY_OFFSET_Y_def
        max_def min_def)
qed

lemma player_on_ground:
  "onPlatform \<lparr> sp_x = 0.08, sp_y = b_y (pc_bounds (ground r)) - ENTITY_OFFSET_Y \<rparr>
     (pc_bounds (ground r))"
  by (simp add: onPlatform_def ground_bounds ENTITY_OFFSET_Y_def)

text \<open>
  Claim C3, as amended. In every scene returned, and one is returned for every input, the
  player spawn stands on a platform of the scene, the ground: \<open>0.06\<close> above it and within
  its span. The exit is placed relative to a highest platform \<open>hb\<close> of the scene (no
  platform has a smaller \<open>y\<close>): its \<open>y\<close> is \<open>hb.y - 0.06\<close> and its \<open>x\<close> is
  \<open>clamp (hb.x + hb.w - 0.05) 0.7 0.95\<close>; it stands within the span of \<open>hb\<close> exactly when
  the right edge \<open>hb.x + hb.w\<close> is at least \<open>0.7\<close>.
\<close>

theorem spawns_relative_to_platforms:
  "\<exists>scene gb hb.
     buildLevel inp = Inr scene \<and>
     gb \<in> set (map so_bounds (platformObjects scene)) \<and>
     gb = \<lparr> b_x = 0, b_y = 0.92, b_w = 1, b_h = 0.03 \<rparr> \<and>
     onPlatform (player (spawns scene)) gb \<and>
     hb \<in> set (map so_bounds (platformObjects scene)) \<and>
     list_all (\<lambda>b. b_y hb \<le> b_y b) (map so_bounds (platformObjects scene)) \<and>
     sp_y (exit (spawns scene)) = b_y hb - 0.06 \<and>
     sp_x (exit (spawns scene)) = clamp (b_x hb + b_w hb - 0.05) 0.7 0.95 \<and>
     (onPlatform (exit (spawns scene)) hb \<longleftrightarrow> 0.7 \<le> b_x hb + b_w hb)"
proof -
  let ?plats = "finalPlatforms (detections inp)"
  obtain hp where scene: "buildLevel inp = Inr (sceneWith inp hp)"
    and hp: "hp \<in> set ?plats" "\<forall>p\<in>set ?plats. b_y (pc_bounds hp) \<le> b_y (pc_bounds p)"
    using buildLevel_Inr by blast
  let ?scene = "sceneWith inp hp"
  have bs: "map so_bounds (platformObjects ?scene) = map pc_bounds ?plats"
    by (rule platform_bounds_sceneWith)
  have ne: "?plats \<noteq> []" and gr: "isGround (hd ?plats)"
    by (rule final_facts)+
  have hd_in: "hd ?plats \<in> set ?plats" using ne by simp
  have "platOK (hd ?plats)" using final_facts(3) hd_in by blast
  from platOK_isGround [OF this gr] obtain r where r: "hd ?plats = ground r" by blast
  have 1: "pc_bounds (ground r) \<in> set (map so_bounds (platformObjects ?scene))"
    unfolding bs using hd_in r by auto
  have 2: "onPlatform (player (spawns ?scene)) (pc_bounds (ground r))"
    using player_on_ground [of r] by (simp add: sceneWith_def Let_def r)
  have 3: "pc_bounds hp \<in> set (map so_bounds (platformObjects ?scene))"
    unfolding bs using hp(1) by simp
  have 4: "list_all (\<lambda>b. b_y (pc_bounds hp) \<le> b_y b) (map so_bounds (platformObjects ?scene))"
    unfolding bs using hp(2) by (simp add: list_all_iff)
  have ex: "exit (spawns ?scene) = exitSpawn hp"
    by (simp add: sceneWith_def Let_def)
  have 5: "sp_y (exit (spawns ?scene)) = b_y (pc_bounds hp) - 0.06"
    "sp_x (exit (spawns ?scene)) =
       clamp (b_x (pc_bounds hp) + b_w (pc_bounds hp) - 0.05) 0.7 0.95"
    unfolding ex by (simp_all add: exitSpawn_def ENTITY_OFFSET_Y_def)
  have "platOK hp" using final_facts(3) hp(1) by blast
  then have 6: "onPlatform (exit (spawns ?scene)) (pc_bounds hp) \<longleftrightarrow>
      0.7 \<le> b_x (pc_bounds hp) + b_w (pc_bounds hp)"
    unfolding ex by (rule exit_in_span_iff)
  show ?thesis
  proof (intro exI conjI)
    show "buildLevel inp = Inr ?scene" by (rule scene)
    show "pc_bounds (ground r) = \<lparr> b_x = 0, b_y = 0.92, b_w = 1, b_h = 0.03 \<rparr>"
      by (rule ground_bounds)
  qed (rule 1 2 3 4 5 6)+
qed

lemma boxInput_scene:
  "\<exists>scene. buildLevel boxInput = Inr scene \<and>
     exit (spawns scene) = \<lparr> sp_x = 0.7, sp_y = 0.74 \<rparr> \<and>
     map so_bounds (platformObjects scene) =
       [\<lparr> b_x = 0, b_y = 0.92, b_w = 1, b_h = 0.03 \<rparr>,
        \<lparr> b_x = 0, b_y = 0.8, b_w = 0.1, b_h = 0.03 \<rparr>]"
  by (simp add: boxInput_def boxLeft_def eval_defs platformObjects_def)

theorem exit_off_every_platform_counterexample:
  "\<exists>scene. buildLevel boxInput = Inr scene \<and>
     exit (spawns scene) = \<lparr> sp_x = 0.7, sp_y = 0.74 \<rparr> \<and>
     map so_bounds (platformObjects scene) =
       [\<lparr> b_x = 0, b_y = 0.92, b_w = 1, b_h = 0.03 \<rparr>,
        \<lparr> b_x = 0, b_y = 0.8, b_w = 0.1, b_h = 0.03 \<rparr>] \<and>
     \<not> list_ex (onPlatform (exit (spawns scene))) (map so_bounds (platformObjects scene))"
proof -
  from boxInput_scene obtain scene where s: "buildLevel boxInput = Inr scene \<and>
     exit (spawns scene) = \<lparr> sp_x = 0.7, sp_y = 0.74 \<rparr> \<and>
     map so_bounds (platformObjects scene) =
       [\<lparr> b_x = 0, b_y = 0.92, b_w = 1, b_h = 0.03 \<rparr>,
        \<lparr> b_x = 0, b_y = 0.8, b_w = 0.1, b_h = 0.03 \<rparr>]" ..
  note s1 = s [THEN conjunct1] and s2 = s [THEN conjunct2, THEN conjunct1]
    and s3 = s [THEN conjunct2, THEN conjunct2]
  have s4: "\<not> list_ex (onPlatform (exit (spawns scene))) (map so_bounds (platformObjects scene))"
    unfolding s2 s3 by (simp add: onPlatform_def)
  show ?thesis
    by (intro exI [of _ scene] conjI) (rule s1 s2 s3 s4)+
qed

theorem spawns_relative_to_platforms_witness:
  "\<exists>scene. buildLevel emptyInput = Inr scene \<and>
     map so_bounds (platformObjects scene) = [\<lparr> b_x = 0, b_y = 0.92, b_w = 1, b_h = 0.03 \<rparr>] \<and>
     onPlatform (player (spawns scene)) \<lparr> b_x = 0, b_y = 0.92, b_w = 1, b_h = 0.03 \<rparr> \<and>
     onPlatform (exit (spawns scene)) \<lparr> b_x = 0, b_y = 0.92, b_w = 1, b_h = 0.03 \<rparr>"
proof -
  let ?g = "\<lparr> b_x = 0, b_y = 0.92, b_w = 1, b_h = 0.03 \<rparr> :: Bounds"
  from spawns_relative_to_platforms [of emptyInput] obtain scene gb hb where
    s: "buildLevel emptyInput = Inr scene \<and>
     gb \<in> set (map so_bounds (platformObjects scene)) \<and>
     gb = ?g \<and>
     onPlatform (player (spawns scene)) gb \<and>
     hb \<in> set (map so_bounds (platformObjects scene)) \<and>
     list_all (\<lambda>b. b_y hb \<le> b_y b) (map so_bounds (platformObjects scene)) \<and>
     sp_y (exit (spawns scene)) = b_y hb - 0.06 \<and>
     sp_x (exit (spawns scene)) = clamp (b_x hb + b_w hb - 0.05) 0.7 0.95 \<and>
     (onPlatform (exit (spawns scene)) hb \<longleftrightarrow> 0.7 \<le> b_x hb + b_w hb)"
    by (elim exE)
  note c = conjunct1 conjunct2
  note s1 = s [THEN c(1)] and s3 = s [THEN c(2), THEN c(2), THEN c(1)]
    and s4 = s [THEN c(2), THEN c(2), THEN c(2), THEN c(1)]
    and s5 = s [THEN c(2), THEN c(2), THEN c(2), THEN c(2), THEN c(1)]
    and s6 = s [THEN c(2), THEN c(2), THEN c(2), THEN c(2), THEN c(2), THEN c(2), THEN c(2),
      THEN c(2)]
  have bs: "map so_bounds (platformObjects scene) = [?g]"
    using s1 by (auto simp: emptyInput_def empty_scene platformObjects_def)
  have "hb = ?g" using s5 unfolding bs by simp
  then have e: "onPlatform (exit (spawns scene)) ?g" using s6 by simp
  have p: "onPlatform (player (spawns scene)) ?g" using s4 unfolding s3 .
  show ?thesis
    by (intro exI [of _ scene] conjI) (rule s1 bs p e)+
qed

subsection \<open>Food detections\<close>

lemma collectibles_update_last:
  "s\<lparr>collectibleDetections := c, obstacleDetections := ob, nextRef := n\<rparr> =
   s\<lparr>obstacleDetections := ob, nextRef := n, collectibleDetections := c\<rparr>"
  "s\<lparr>collectibleDetections := c, candidates := cs, nextRef := n\<rparr> =
   s\<lparr>candidates := cs, nextRef := n, collectibleDetections := c\<rparr>"
  by (cases s; simp)+

lemma stepA_loop_collectibles_irrelevant:
  "(stepA_loop dets (s\<lparr>collectibleDetections := c\<rparr>))\<lparr>collectibleDetections := c'\<rparr> =
   (stepA_loop dets s)\<lparr>collectibleDetections := c'\<rparr>"
proof (induction dets arbitrary: s c)
  case Nil
  then show ?case by simp
next
  case (Cons det dets)
  show ?case
  proof (cases "det_category det = Food")
    case True
    show ?thesis
      unfolding stepA_loop_food [OF True]
      using Cons.IH [where s = s and c = "c @ [det]"]
        Cons.IH [where s = s and c = "collectibleDetections s @ [det]"]
      by simp
  next
    case nf: False
    show ?thesis
    proof (cases "b_w (platBounds det) < MIN_PLATFORM_WIDTH")
      case True
      show ?thesis
        unfolding stepA_loop_obstacle [OF nf True]
        using Cons.IH [where s = "s\<lparr>obstacleDetections := obstacleDetections s @ [det],
                              nextRef := nextRef s + 1\<rparr>" and c = c]
        by (simp add: collectibles_update_last)
    next
      case False
      show ?thesis
        unfolding stepA_loop_candidate [OF nf False]
        using Cons.IH [where s = "s\<lparr>candidates := candidates s @
             [\<lparr> pc_label = det_label det, pc_category = det_category det,
                pc_confidence = det_confidence det, pc_bounds = platBounds det,
                pc_bounds_ref = nextRef s, isBridge = False, isGround = False,
                enemyAnchor = (det_category det = Plant \<or> det_category det = Electric) \<rparr>],
          nextRef := nextRef s + 1\<rparr>" and c = c]
        by (simp add: collectibles_update_last)
    qed
  qed
qed

lemma stepA_loop_without_food:
  "stepA_loop dets s =
   (stepA_loop (filter (\<lambda>d. det_category d \<noteq> Food) dets) s)
     \<lparr>collectibleDetections :=
        collectibleDetections s @ filter (\<lambda>d. det_category d = Food) dets\<rparr>"
proof (induction dets arbitrary: s)
  case Nil
  then show ?case by simp
next
  case (Cons det dets)
  let ?nf = "filter (\<lambda>d. det_category d \<noteq> Food)"
  show ?case
  proof (cases "det_category det = Food")
    case True
    have "stepA_loop (det # dets) s =
        (stepA_loop (?nf dets) (s\<lparr>collectibleDetections := collectibleDetections s @ [det]\<rparr>))
          \<lparr>collectibleDetections :=
             collectibleDetections s @ det # filter (\<lambda>d. det_category d = Food) dets\<rparr>"
      unfolding stepA_loop_food [OF True]
      by (subst Cons.IH) simp
    then show ?thesis
      using True by (simp add: stepA_loop_collectibles_irrelevant)
  next
    case nf: False
    have nfeq: "?nf (det # dets) = det # ?nf dets" using nf by simp
    have F: "filter (\<lambda>d. det_category d = Food) (det # dets) =
        filter (\<lambda>d. det_category d = Food) dets"
      using nf by simp
    show ?thesis
    proof (cases "b_w (platBounds det) < MIN_PLATFORM_WIDTH")
      case True
      let ?s1 = "s\<lparr>obstacleDetections := obstacleDetections s @ [det],
                    nextRef := nextRef s + 1\<rparr>"
      have L: "stepA_loop (det # dets) s = stepA_loop dets ?s1"
        by (rule stepA_loop_obstacle [OF nf True])
      have R: "stepA_loop (?nf (det # dets)) s = stepA_loop (?nf dets) ?s1"
        unfolding nfeq by (rule stepA_loop_obstacle [OF nf True])
      show ?thesis
        unfolding L R F using Cons.IH [where s = ?s1] by simp
    next
      case False
      let ?s1 = "s\<lparr>candidates := candidates s @
             [\<lparr> pc_label = det_label det, pc_category = det_category det,
                pc_confidence = det_confidence det, pc_bounds = platBounds det,
                pc_bounds_ref = nextRef s, isBridge = False, isGround = False,
                enemyAnchor = (det_category det = Plant \<or> det_category det = Electric) \<rparr>],
          nextRef := nextRef s + 1\<rparr>"
      have L: "stepA_loop (det # dets) s = stepA_loop dets ?s1"
        by (rule stepA_loop_candidate [OF nf False])
      have R: "stepA_loop (?nf (det # dets)) s = stepA_loop (?nf dets) ?s1"
        unfolding nfeq by (rule stepA_loop_candidate [OF nf False])
      show ?thesis
        unfolding L R F using Cons.IH [where s = ?s1] by simp
    qed
  qed
qed

lemma stepA_without_food:
  "stepA dets =
   (stepA (filter (\<lambda>d. det_category d \<noteq> Food) dets))
     \<lparr>collectibleDetections := filter (\<lambda>d. det_category d = Food) dets\<rparr>"
  unfolding stepA_def by (subst stepA_loop_without_food) simp

lemma finalPlatforms_without_food:
  "finalPlatforms (filter (\<lambda>d. det_category d \<noteq> Food) dets) = finalPlatforms dets"
proof -
  have "repaired dets = repaired (filter (\<lambda>d. det_category d \<noteq> Food) dets)"
    unfolding repaired_def
    by (subst stepA_without_food) (simp add: Let_def stepD_def)
  then show ?thesis by (simp add: finalPlatforms_def)
qed

lemma markAll_other_type: "so_type ob \<noteq> Platform \<Longrightarrow> markAll R ob = ob"
  by (simp add: markAll_def)

lemma collectibleObjects_sceneWith:
  "collectibleObjects (sceneWith inp hp) =
     stepH (length (finalPlatforms (detections inp)) +
            length (take 4 (obstacleDetections (stepA (detections inp)))))
       (filter (\<lambda>d. det_category d = Food) (detections inp))"
proof -
  let ?H = "stepH (length (finalPlatforms (detections inp)) +
            length (take 4 (obstacleDetections (stepA (detections inp)))))
       (collectibleDetections (stepA (detections inp)))"
  have "\<forall>ob\<in>set ?H. markAll R ob = ob" for R
    using stepH_type markAll_other_type by fastforce
  then have "map (markAll R) ?H = ?H" for R
    by (simp add: map_idI)
  moreover have "collectibleDetections (stepA (detections inp)) =
      filter (\<lambda>d. det_category d = Food) (detections inp)"
    by (subst stepA_without_food) simp
  ultimately show ?thesis
    by (simp add: collectibleObjects_def sceneWith_def Let_def filter_map_markAll
        builtObjects_collectibles)
qed

lemma stepH_fields:
  "map so_label (stepH n dets) = map det_label (take 5 dets)"
  "map so_bounds (stepH n dets) = map bounds_normalized (take 5 dets)"
  "map so_category (stepH n dets) = map (\<lambda>d. Some Food) (take 5 dets)"
  by (rule nth_equalityI; simp add: stepH_def collectibleObject_def nth_enumerate_eq)+

subsection \<open>Collectibles and platforms\<close>

lemma stepF_category:
  assumes "ob \<in> set (stepF plats)"
  shows "\<exists>p\<in>set plats. so_category ob = Some (pc_category p)"
proof -
  from assms obtain i p where "(i, p) \<in> set (enumerate 0 plats)" "ob = platformObject i p"
    by (auto simp: stepF_def)
  moreover from this have "p \<in> set plats"
    by (auto simp: in_set_enumerate_eq)
  ultimately show ?thesis
    by (auto simp: platformObject_def)
qed

lemma platform_categories:
  "list_all (\<lambda>ob. so_category ob \<noteq> Some Food) (platformObjects (sceneWith inp hp))"
proof -
  have "so_category ob \<noteq> Some Food" if "ob \<in> set (stepF (finalPlatforms (detections inp)))" for ob
  proof -
    from stepF_category [OF that] obtain p where
      p: "p \<in> set (finalPlatforms (detections inp))" "so_category ob = Some (pc_category p)"
      by blast
    have "platOK p" using final_facts(3) p(1) by blast
    then show ?thesis using p(2) by (simp add: platOK_def)
  qed
  then show ?thesis
    unfolding platformObjects_sceneWith by (auto simp: list_all_iff)
qed

text \<open>
  Claim C4, as amended. For every input a scene is returned in which the first five
  detections of category food, in input order, each yield an object of type collectible
  (same label, same bounds, category food), and these are all the collectibles. No food
  detection contributes a platform: no platform object has category food, and the platform
  objects are those of the same input with the food detections removed.
\<close>

theorem food_becomes_collectible_never_platform:
  "\<exists>scene scene'.
     buildLevel inp = Inr scene \<and>
     buildLevel (inp\<lparr>detections := filter (\<lambda>d. det_category d \<noteq> Food) (detections inp)\<rparr>)
       = Inr scene' \<and>
     platformObjects scene = platformObjects scene' \<and>
     list_all (\<lambda>ob. so_category ob \<noteq> Some Food) (platformObjects scene) \<and>
     map so_label (collectibleObjects scene) =
       map det_label (take 5 (filter (\<lambda>d. det_category d = Food) (detections inp))) \<and>
     map so_bounds (collectibleObjects scene) =
       map bounds_normalized (take 5 (filter (\<lambda>d. det_category d = Food) (detections inp))) \<and>
     map so_category (collectibleObjects scene) =
       map (\<lambda>d. Some Food) (take 5 (filter (\<lambda>d. det_category d = Food) (detections inp)))"
proof -
  let ?inp' = "inp\<lparr>detections := filter (\<lambda>d. det_category d \<noteq> Food) (detections inp)\<rparr>"
  obtain hp where scene: "buildLevel inp = Inr (sceneWith inp hp)"
    using buildLevel_Inr by blast
  obtain hp' where scene': "buildLevel ?inp' = Inr (sceneWith ?inp' hp')"
    using buildLevel_Inr by blast
  have "finalPlatforms (detections ?inp') = finalPlatforms (detections inp)"
    by (simp add: finalPlatforms_without_food)
  then have same: "platformObjects (sceneWith inp hp) = platformObjects (sceneWith ?inp' hp')"
    by (simp only: platformObjects_sceneWith)
  note cat = platform_categories [of inp hp]
  note col = collectibleObjects_sceneWith [of inp hp]
  show ?thesis
  proof (intro exI conjI)
    show "buildLevel inp = Inr (sceneWith inp hp)" by (rule scene)
    show "buildLevel ?inp' = Inr (sceneWith ?inp' hp')" by (rule scene')
    show "platformObjects (sceneWith inp hp) = platformObjects (sceneWith ?inp' hp')"
      by (rule same)
    show "list_all (\<lambda>ob. so_category ob \<noteq> Some Food) (platformObjects (sceneWith inp hp))"
      by (rule cat)
  qed (simp_all only: col stepH_fields)
qed

theorem sixth_food_detection_dropped_counterexample:
  "\<exists>scene. buildLevel sixSnacks = Inr scene \<and>
     map det_label (filter (\<lambda>d. det_category d = Food) (detections sixSnacks)) =
       [''apple'', ''banana'', ''cherry'', ''donut'', ''egg'', ''fig''] \<and>
     map so_label (collectibleObjects scene) =
       [''apple'', ''banana'', ''cherry'', ''donut'', ''egg''] \<and>
     map so_label (objects scene) =
       [''ground'', ''apple'', ''banana'', ''cherry'', ''donut'', ''egg'']"
  by (simp add: sixSnacks_def snack_def eval_defs collectibleObjects_def)

subsection \<open>The exact builder is the rounding builder without rounding\<close>

lemma horizontalOverlapR_id: "horizontalOverlapR (\<lambda>x. x) a b = horizontalOverlap a b"
  by (simp add: horizontalOverlapR_def horizontalOverlap_def)

lemma horizontalGapR_id: "horizontalGapR (\<lambda>x. x) a b = horizontalGap a b"
  by (simp add: horizontalGapR_def horizontalGap_def Let_def)

lemma platBoundsR_id: "platBoundsR (\<lambda>x. x) det = platBounds det"
  by (simp add: platBoundsR_def platBounds_def)

lemma stepA_loopR_id: "stepA_loopR (\<lambda>x. x) dets s = stepA_loop dets s"
  by (induction dets arbitrary: s) (simp_all add: platBoundsR_id)

lemma groundR_id: "groundR (\<lambda>x. x) r = ground r"
  by (simp add: groundR_def ground_def)

lemma dedupR_id: "dedupR (\<lambda>x. x) cands filtered = dedup cands filtered"
  by (induction cands arbitrary: filtered) (simp_all add: horizontalOverlapR_id)

lemma bridgeR_id: "bridgeR (\<lambda>x. x) lower upper r = bridge lower upper r"
  by (simp add: bridgeR_def bridge_def Let_def)

lemma steppingStoneR_id: "steppingStoneR (\<lambda>x. x) lower upper r = steppingStone lower upper r"
  by (simp add: steppingStoneR_def steppingStone_def Let_def)

lemma scanR_id: "scanR (\<lambda>x. x) i plats r = scan i plats r"
proof (induction "length plats - i" arbitrary: i)
  case 0
  then show ?case
    by (subst scanR.simps, subst scan.simps) simp
next
  case (Suc n)
  have "scanR (\<lambda>x. x) (i + 1) plats r = scan (i + 1) plats r"
    by (rule Suc.hyps(1)) (use Suc.hyps(2) in simp)
  then show ?case
    by (subst scanR.simps, subst scan.simps)
      (simp add: bridgeR_id steppingStoneR_id horizontalGapR_id Let_def)
qed

lemma repair_bodyR_id: "repair_bodyR (\<lambda>x. x) s = repair_body s"
  by (simp add: repair_bodyR_def repair_body_def scanR_id)

lemma repair_loopR_id: "repair_loopR (\<lambda>x. x) s = repair_loop s"
proof (induction s rule: repair_loop.induct)
  case (1 s)
  show ?case
  proof (cases "bridgesInserted s \<and> iterations s < 10")
    case True
    then show ?thesis
      using "1.IH" [OF True]
      by (subst repair_loopR.simps, subst repair_loop.simps) (simp add: repair_bodyR_id)
  next
    case False
    then show ?thesis
      by (subst repair_loopR.simps, subst repair_loop.simps) auto
  qed
qed

lemma finalPlatformsR_id: "finalPlatformsR (\<lambda>x. x) dets = finalPlatforms dets"
  by (simp add: finalPlatformsR_def finalPlatforms_def repaired_def stepER_def stepE_def
      stepDR_def stepD_def stepAR_def stepA_def stepA_loopR_id groundR_id dedupR_id
      repair_loopR_id Let_def)

lemma exitSpawnR_id: "exitSpawnR (\<lambda>x. x) hp = exitSpawn hp"
  by (simp add: exitSpawnR_def exitSpawn_def)

lemma placePickupsR_id: "placePickupsR (\<lambda>x. x) i plats pks = placePickups i plats pks"
  by (induction plats arbitrary: i pks) simp_all

lemma bridgePickupsR_id: "bridgePickupsR (\<lambda>x. x) plats pks = bridgePickups plats pks"
  by (induction plats arbitrary: pks) simp_all

lemma stepKR_id: "stepKR (\<lambda>x. x) plats gp = stepK plats gp"
  by (simp add: stepKR_def stepK_def placePickupsR_id bridgePickupsR_id Let_def)

lemma enemyPlatformsR_id: "enemyPlatformsR (\<lambda>x. x) plats = enemyPlatforms plats"
  by (simp add: enemyPlatformsR_def enemyPlatforms_def)

lemma stepL_loopR_id: "stepL_loopR (\<lambda>x. x) plats st = stepL_loop plats st"
  by (induction plats st rule: stepL_loop.induct) simp_all

lemma buildLevelR_id: "buildLevelR (\<lambda>x. x) input = buildLevel input"
  by (simp add: buildLevelR_def buildLevel_def finalPlatformsR_id stepAR_def stepA_def
      stepA_loopR_id exitSpawnR_id stepKR_id enemyPlatformsR_id stepL_loopR_id Let_def
      split: option.split)

lemma buildLevelR_exact: "buildLevelR id = buildLevel"
  by (rule ext) (simp add: id_def buildLevelR_id)

subsection \<open>Empty detections in double arithmetic\<close>

lemma floor_rat_numeral: "\<lfloor>numeral a / numeral b :: rat\<rfloor> = numeral a div numeral b"
  using floor_divide_of_int_eq [of "numeral a" "numeral b", where ?'a = rat] by simp

lemmas fl_eval = fl_def roundEven_def binade.simps Let_def floor_rat_numeral

lemma fl_literals:
  "fl 0 = 0" "fl 1 = 1" "fl 0.5 = 1 / 2"
  "fl 0.92 = 8286623314361713 / 2 ^ 53"
  "fl 0.06 = 1080863910568919 / 2 ^ 54"
  "fl 0.03 = 1080863910568919 / 2 ^ 55"
  "fl 0.08 = 5764607523034235 / 2 ^ 56"
  "fl 0.3 = 5404319552844595 / 2 ^ 54"
  "fl 0.05 = 3602879701896397 / 2 ^ 56"
  "fl 0.7 = 3152519739159347 / 2 ^ 52"
  "fl 0.95 = 4278419646001971 / 2 ^ 52"
  "fl 0.86 = 7746191359077253 / 2 ^ 53"
  by (simp_all add: fl_eval)

lemma fl_ground_less_offset: "fl (fl 0.92 - fl 0.06) = 7746191359077254 / 2 ^ 53"
  by (simp add: fl_literals) (simp add: fl_eval)

lemma fl_exit_x: "fl (fl (fl 0 + fl 1) - fl 0.05) = fl 0.95"
  by (simp add: fl_literals) (simp add: fl_eval)

lemma finalPlatformsR_empty: "finalPlatformsR rnd [] = [groundR rnd 0]"
  by (simp add: finalPlatformsR_def stepAR_def stepDR_def stepER_def sortDescY_def
      MAX_PLATFORMS_def repair_loopR.simps repair_bodyR_def scanR.simps capPlatforms.simps)

lemma empty_scene_R:
  "buildLevelR rnd \<lparr> in_image = img, detections = [] \<rparr> =
     Inr \<lparr> version = 1,
           scene_image = \<lparr> img_w = img_w img, img_h = img_h img \<rparr>,
           objects = [\<lparr> so_id = ''ground_0'', so_type = Platform, so_label = ''ground'',
                        so_confidence = rnd 1,
                        so_bounds = \<lparr> b_x = rnd 0, b_y = rnd 0.92, b_w = rnd 1,
                                      b_h = rnd 0.03 \<rparr>,
                        so_bounds_ref = FreshRef 0, surface_type = Some Solid,
                        so_category = Some Furniture, enemy_spawn_anchor = Some False \<rparr>],
           spawns = \<lparr> player = \<lparr> sp_x = rnd 0.08, sp_y = rnd (rnd 0.92 - rnd 0.06) \<rparr>,
                      exit = \<lparr> sp_x = clamp (rnd (rnd (rnd 0 + rnd 1) - rnd 0.05))
                                        (rnd 0.7) (rnd 0.95),
                               sp_y = rnd (rnd 0.92 - rnd 0.06) \<rparr>,
                      enemies = [],
                      pickups = [\<lparr> sp_x = rnd 0.3, sp_y = rnd (rnd 0.92 - rnd 0.06),
                                   pickup_type = ''coin'' \<rparr>,
                                 \<lparr> sp_x = rnd 0.5, sp_y = rnd (rnd 0.92 - rnd 0.06),
                                   pickup_type = ''coin'' \<rparr>] \<rparr>,
           rules = [] \<rparr>"
  by (simp add: buildLevelR_def finalPlatformsR_empty stepAR_def groundR_def groundPlat_def
      highestPlat_def sortAscY_def builtObjects_def stepF_def stepG_def stepH_def
      platformObject_def nextId_def string_of_nat.simps enumerate_eq_zip
      stepKR_def enemyPlatformsR_def exitSpawnR_def consts_defs Let_def)

text \<open>
  Claim C9, as amended. For an input whose detections list is empty, whatever the image
  size, \<^verbatim>\<open>buildLevel\<close> in double arithmetic returns a scene with exactly one platform
  object, the ground; the player spawn is at \<open>x = 0.08\<close>, the exit at \<open>x = 0.95\<close> within the
  ground's horizontal span, the pickups are exactly two coins at \<open>x = 0.3\<close> and \<open>x = 0.5\<close>,
  and there are no enemies. The \<open>y\<close> of all four spawn points is the double that the
  subtraction \<open>0.92 - 0.06\<close> returns: the double next above the double \<open>0.86\<close>
  (\<^verbatim>\<open>0.8600000000000001\<close>), less than \<open>1 / 2 ^ 53\<close> away from \<open>0.86\<close>. Each decimal stands
  for the double nearest to it.
\<close>

theorem empty_detections_minimal_level_double:
  "\<exists>scene g.
     buildLevelR fl \<lparr> in_image = img, detections = [] \<rparr> = Inr scene \<and>
     platformObjects scene = [g] \<and> so_label g = ''ground'' \<and>
     so_bounds g = \<lparr> b_x = 0, b_y = fl 0.92, b_w = 1, b_h = fl 0.03 \<rparr> \<and>
     player (spawns scene) = \<lparr> sp_x = fl 0.08, sp_y = fl (fl 0.92 - fl 0.06) \<rparr> \<and>
     exit (spawns scene) = \<lparr> sp_x = fl 0.95, sp_y = fl (fl 0.92 - fl 0.06) \<rparr> \<and>
     b_x (so_bounds g) \<le> sp_x (exit (spawns scene)) \<and>
     sp_x (exit (spawns scene)) \<le> b_x (so_bounds g) + b_w (so_bounds g) \<and>
     pickups (spawns scene) =
       [\<lparr> sp_x = fl 0.3, sp_y = fl (fl 0.92 - fl 0.06), pickup_type = ''coin'' \<rparr>,
        \<lparr> sp_x = fl 0.5, sp_y = fl (fl 0.92 - fl 0.06), pickup_type = ''coin'' \<rparr>] \<and>
     enemies (spawns scene) = [] \<and>
     fl (fl 0.92 - fl 0.06) = fl 0.86 + 1 / 2 ^ 53 \<and>
     \<bar>fl (fl 0.92 - fl 0.06) - 0.86\<bar> < 1 / 2 ^ 53"
  unfolding empty_scene_R fl_ground_less_offset fl_exit_x
  unfolding fl_literals
  by (simp add: platformObjects_def clamp_def)

theorem empty_detections_y_not_086_counterexample:
  "\<exists>scene.
     buildLevelR fl emptyInput = Inr scene \<and>
     sp_y (player (spawns scene)) = 7746191359077254 / 2 ^ 53 \<and>
     fl 0.86 = 7746191359077253 / 2 ^ 53 \<and>
     sp_y (player (spawns scene)) \<noteq> fl 0.86 \<and>
     sp_y (player (spawns scene)) \<noteq> 0.86 \<and>
     sp_y (exit (spawns scene)) \<noteq> fl 0.86 \<and>
     map sp_y (pickups (spawns scene)) \<noteq> [fl 0.86, fl 0.86]"
  unfolding emptyInput_def empty_scene_R fl_ground_less_offset fl_exit_x
  unfolding fl_literals
  by simp

end
